theory Spec2Isabelle
  imports Main "HOL-Library.Sublist"
begin

section \<open>JavaScript strings\<close>

text \<open>
  A JavaScript string is a sequence of UTF-16 code units. The sources mix ASCII and
  Hebrew text, so a code unit is a natural number and a string is a list of them.
  ASCII literals are written with \<open>asc\<close>; Hebrew literals are written as their code
  units (U+05D0 is 1488).
\<close>

type_synonym jsstring = "nat list"

definition asc :: "string \<Rightarrow> jsstring" where
  "asc s = map of_char s"

text \<open>
  The characters removed by \<open>String.prototype.trim\<close> and matched by \<open>\s\<close>: the
  WhiteSpace and LineTerminator productions of ECMAScript.
\<close>

definition isWhiteSpace :: "nat \<Rightarrow> bool" where
  "isWhiteSpace c \<longleftrightarrow>
     c = 9 \<or> c = 10 \<or> c = 11 \<or> c = 12 \<or> c = 13 \<or> c = 32 \<or> c = 160 \<or> c = 5760 \<or>
     (8192 \<le> c \<and> c \<le> 8202) \<or> c = 8232 \<or> c = 8233 \<or> c = 8239 \<or> c = 8287 \<or>
     c = 12288 \<or> c = 65279"

definition trimStart :: "jsstring \<Rightarrow> jsstring" where
  "trimStart s = dropWhile isWhiteSpace s"

definition trimEnd :: "jsstring \<Rightarrow> jsstring" where
  "trimEnd s = rev (dropWhile isWhiteSpace (rev s))"

definition trim :: "jsstring \<Rightarrow> jsstring" where
  "trim s = trimEnd (trimStart s)"

section \<open>Domain list normalization (getDomains)\<close>

text \<open>
  The callback of the last \<open>map\<close> in \<open>getDomains\<close>:
  \<^verbatim>\<open>
    let d = domain.toString().trim();
    d = d.replace(/^https?:\/\//, '');
    d = d.replace(/^www\./, '');
    d = d.replace(/\/+$/, '');
    return d;
  \<close>
  Each \<open>replace\<close> has a regular expression without the \<open>g\<close> flag and anchored at
  one end, so it removes at most one prefix, or the whole run of slashes that ends the
  string.
\<close>

definition stripScheme :: "jsstring \<Rightarrow> jsstring" where
  "stripScheme d =
     (if prefix (asc ''https://'') d then drop 8 d
      else if prefix (asc ''http://'') d then drop 7 d
      else d)"

definition stripWww :: "jsstring \<Rightarrow> jsstring" where
  "stripWww d = (if prefix (asc ''www.'') d then drop 4 d else d)"

definition stripTrailingSlashes :: "jsstring \<Rightarrow> jsstring" where
  "stripTrailingSlashes d = rev (dropWhile (\<lambda>c. c = 47) (rev d))"

definition normalizeDomain :: "jsstring \<Rightarrow> jsstring" where
  "normalizeDomain domain = stripTrailingSlashes (stripWww (stripScheme (trim domain)))"

text \<open>
  \<open>getDomains\<close> on the cells of column A: blank cells are filtered out, the others
  normalized. A cell is \<open>None\<close> when it is empty (a falsy value).
\<close>

definition getDomains :: "jsstring option list \<Rightarrow> jsstring list" where
  "getDomains values =
     map normalizeDomain
       (concat (map (\<lambda>cell. case cell of
                        None \<Rightarrow> []
                      | Some d \<Rightarrow> if d \<noteq> [] \<and> trim d \<noteq> [] then [d] else []) values))"

text \<open>A string is clean when none of the four steps of \<open>normalizeDomain\<close> changes it.\<close>

definition startsWithSpace :: "jsstring \<Rightarrow> bool" where
  "startsWithSpace d = (case d of [] \<Rightarrow> False | c # _ \<Rightarrow> isWhiteSpace c)"

definition endsWithSpace :: "jsstring \<Rightarrow> bool" where
  "endsWithSpace d = startsWithSpace (rev d)"

definition hasStrippablePrefix :: "jsstring \<Rightarrow> bool" where
  "hasStrippablePrefix d \<longleftrightarrow>
     prefix (asc ''https://'') d \<or> prefix (asc ''http://'') d \<or> prefix (asc ''www.'') d"

section \<open>Hebrew to English substitution (translateToEnglish)\<close>

text \<open>
  \<open>s.replace(new RegExp(k, 'g'), r)\<close> for a pattern \<open>k\<close> without regular expression
  metacharacters and a replacement \<open>r\<close> without \<open>$\<close>: every occurrence of \<open>k\<close>, found
  from left to right without overlaps, is replaced by \<open>r\<close>. The empty pattern matches
  before every code unit and at the end.
\<close>

fun replaceAll :: "jsstring \<Rightarrow> jsstring \<Rightarrow> jsstring \<Rightarrow> jsstring" where
  "replaceAll pat rep [] = (if pat = [] then rep else [])"
| "replaceAll pat rep (c # cs) =
     (if pat = [] then rep @ c # replaceAll pat rep cs
      else if prefix pat (c # cs) then rep @ replaceAll pat rep (drop (length pat) (c # cs))
      else c # replaceAll pat rep cs)"

text \<open>
  The table \<open>hebrewToEnglish\<close>, in the order of the object literal, which is the order
  \<open>Object.entries\<close> enumerates it in. No key has a metacharacter and no key is repeated.
\<close>

definition hebrewToEnglish :: "(jsstring \<times> jsstring) list" where
  "hebrewToEnglish =
     [
      ([1492, 1493, 1500, 1504, 1491], asc ''Netherlands''),
      ([1497, 1513, 1512, 1488, 1500], asc ''Israel''),
      ([1488, 1512, 1510, 1493, 1514, 32, 1492, 1489, 1512, 1497, 1514], asc ''United States''),
      ([1489, 1512, 1497, 1496, 1504, 1497, 1492], asc ''United Kingdom''),
      ([1490, 1512, 1502, 1504, 1497, 1492], asc ''Germany''),
      ([1510, 1512, 1508, 1514], asc ''France''),
      ([1505, 1508, 1512, 1491], asc ''Spain''),
      ([1488, 1497, 1496, 1500, 1497, 1492], asc ''Italy''),
      ([1511, 1504, 1491, 1492], asc ''Canada''),
      ([1488, 1493, 1505, 1496, 1512, 1500, 1497, 1492], asc ''Australia''),
      ([1497, 1508, 1503], asc ''Japan''),
      ([1505, 1497, 1503], asc ''China''),
      ([1492, 1493, 1491, 1493], asc ''India''),
      ([1489, 1512, 1494, 1497, 1500], asc ''Brazil''),
      ([1512, 1493, 1505, 1497, 1492], asc ''Russia''),
      ([1502, 1511, 1505, 1497, 1511, 1493], asc ''Mexico''),
      ([1508, 1493, 1500, 1497, 1503], asc ''Poland''),
      ([1496, 1493, 1512, 1511, 1497, 1492], asc ''Turkey''),
      ([1488, 1493, 1511, 1512, 1488, 1497, 1504, 1492], asc ''Ukraine''),
      ([1513, 1493, 1493, 1497, 1509], asc ''Switzerland''),
      ([1488, 1493, 1505, 1496, 1512, 1497, 1492], asc ''Austria''),
      ([1489, 1500, 1490, 1497, 1492], asc ''Belgium''),
      ([1513, 1493, 1493, 1491, 1497, 1492], asc ''Sweden''),
      ([1504, 1493, 1512, 1489, 1490, 1497, 1492], asc ''Norway''),
      ([1491, 1504, 1502, 1512, 1511], asc ''Denmark''),
      ([1508, 1497, 1504, 1500, 1504, 1491], asc ''Finland''),
      ([1508, 1493, 1512, 1496, 1493, 1490, 1500], asc ''Portugal''),
      ([1497, 1493, 1493, 1503], asc ''Greece''),
      ([1510, 39, 1499, 1497, 1492], asc ''Czech Republic''),
      ([1512, 1493, 1502, 1504, 1497, 1492], asc ''Romania''),
      ([1492, 1493, 1504, 1490, 1512, 1497, 1492], asc ''Hungary''),
      ([1488, 1497, 1512, 1500, 1504, 1491], asc ''Ireland''),
      ([1504, 1497, 1493, 32, 1494, 1497, 1500, 1504, 1491], asc ''New Zealand''),
      ([1505, 1497, 1504, 1490, 1508, 1493, 1512], asc ''Singapore''),
      ([1492, 1493, 1504, 1490, 32, 1511, 1493, 1504, 1490], asc ''Hong Kong''),
      ([1491, 1512, 1493, 1501, 32, 1511, 1493, 1512, 1497, 1488, 1492], asc ''South Korea''),
      ([1514, 1488, 1497, 1500, 1504, 1491], asc ''Thailand''),
      ([1502, 1500, 1494, 1497, 1492], asc ''Malaysia''),
      ([1488, 1497, 1504, 1491, 1493, 1504, 1494, 1497, 1492], asc ''Indonesia''),
      ([1508, 1497, 1500, 1497, 1508, 1497, 1504, 1497, 1501], asc ''Philippines''),
      ([1493, 1497, 1497, 1496, 1504, 1488, 1501], asc ''Vietnam''),
      ([1488, 1512, 1490, 1504, 1496, 1497, 1504, 1492], asc ''Argentina''),
      ([1511, 1493, 1500, 1493, 1502, 1489, 1497, 1492], asc ''Colombia''),
      ([1510, 39, 1497, 1500, 1492], asc ''Chile''),
      ([1508, 1512, 1493], asc ''Peru''),
      ([1502, 1510, 1512, 1497, 1501], asc ''Egypt''),
      ([1491, 1512, 1493, 1501, 32, 1488, 1508, 1512, 1497, 1511, 1492], asc ''South Africa''),
      ([1488, 1497, 1495, 1493, 1491, 32, 1492, 1488, 1502, 1497, 1512, 1493, 1497, 1493, 1514], asc ''United Arab Emirates''),
      ([1505, 1506, 1493, 1491, 1497, 1492], asc ''Saudi Arabia''),
      ([1489, 1499, 1500, 32, 1502, 1511, 1493, 1501], asc ''Everywhere''),
      ([1499, 1500, 32, 1492, 1502, 1511, 1493, 1502, 1493, 1514], asc ''All locations''),
      ([1489, 1497, 1504, 1493, 1523], asc ''Jan''),
      ([1489, 1508, 1489, 1512, 1523], asc ''Feb''),
      ([1489, 1502, 1512, 1509], asc ''Mar''),
      ([1489, 1488, 1508, 1512, 1523], asc ''Apr''),
      ([1489, 1502, 1488, 1497], asc ''May''),
      ([1489, 1497, 1493, 1504, 1497], asc ''Jun''),
      ([1489, 1497, 1493, 1500, 1497], asc ''Jul''),
      ([1489, 1488, 1493, 1490, 1523], asc ''Aug''),
      ([1489, 1505, 1508, 1496, 1523], asc ''Sep''),
      ([1489, 1488, 1493, 1511, 1523], asc ''Oct''),
      ([1489, 1504, 1493, 1489, 1523], asc ''Nov''),
      ([1489, 1491, 1510, 1502, 1523], asc ''Dec'')

     ]"

text \<open>
  \<^verbatim>\<open>
  function translateToEnglish(text) {
    if (!text) return text;
    let result = text;
    for (const [hebrew, english] of Object.entries(hebrewToEnglish)) {
      result = result.replace(new RegExp(hebrew, 'g'), english);
    }
    return result;
  }
  \<close>
\<close>

abbreviation substituteAll :: "(jsstring \<times> jsstring) list \<Rightarrow> jsstring \<Rightarrow> jsstring" where
  "substituteAll tbl s \<equiv> fold (\<lambda>(hebrew, english) result. replaceAll hebrew english result) tbl s"

definition translateToEnglish :: "jsstring \<Rightarrow> jsstring" where
  "translateToEnglish text =
     (if text = [] then text
      else substituteAll hebrewToEnglish text)"

text \<open>
  What the keys and the replacements of the table have in common: a key starts with a
  Hebrew letter and has no upper-case Latin letter; a replacement starts with an
  upper-case Latin letter and has no code unit from U+05D0 on.
\<close>

definition goodKey :: "jsstring \<Rightarrow> bool" where
  "goodKey k \<longleftrightarrow> k \<noteq> [] \<and> 1488 \<le> hd k \<and> list_all (\<lambda>c. c < 65 \<or> 90 < c) k"

definition goodRep :: "jsstring \<Rightarrow> bool" where
  "goodRep r \<longleftrightarrow> r \<noteq> [] \<and> 65 \<le> hd r \<and> hd r \<le> 90 \<and> list_all (\<lambda>c. c < 1488) r"

definition goodTable :: "(jsstring \<times> jsstring) list \<Rightarrow> bool" where
  "goodTable tbl = list_all (\<lambda>(k, r). goodKey k \<and> goodRep r) tbl"

section \<open>Regular expressions of the ad-count extraction\<close>

text \<open>
  The three patterns of \<open>adCountPatterns\<close> use literals, \<open>\d\<close>, \<open>\s\<close>, sequence,
  alternation, the greedy quantifiers \<open>*\<close>, \<open>+\<close> and \<open>?\<close>, non-capturing groups and
  exactly one capturing group each, under the flag \<open>i\<close>. \<open>Group\<close> is that capturing
  group; \<open>r+\<close> is \<open>r\<close> followed by \<open>r*\<close>.
\<close>

datatype regex =
    Lit jsstring
  | Digit
  | Space
  | Seq regex regex
  | Alt regex regex
  | Opt regex
  | Star regex
  | Group regex

definition OneOrMore :: "regex \<Rightarrow> regex" where
  "OneOrMore r = Seq r (Star r)"

text \<open>
  Canonicalization under the flag \<open>i\<close> (no flag \<open>u\<close>): the literals of the patterns
  are ASCII letters, which match exactly their two cases, and Hebrew letters and signs,
  which match only themselves.
\<close>

definition canon :: "nat \<Rightarrow> nat" where
  "canon c = (if 97 \<le> c \<and> c \<le> 122 then c - 32 else c)"

definition isDigit :: "nat \<Rightarrow> bool" where
  "isDigit c \<longleftrightarrow> 48 \<le> c \<and> c \<le> 57"

fun prefixCI :: "jsstring \<Rightarrow> jsstring \<Rightarrow> bool" where
  "prefixCI [] s = True"
| "prefixCI (w # ws) [] = False"
| "prefixCI (w # ws) (c # cs) = (canon w = canon c \<and> prefixCI ws cs)"

definition orElse :: "'a option \<Rightarrow> 'a option \<Rightarrow> 'a option" where
  "orElse a b = (case a of Some x \<Rightarrow> Some x | None \<Rightarrow> b)"

text \<open>
  A backtracking matcher: \<open>matches r s\<close> lists every way \<open>r\<close> can match at the start
  of \<open>s\<close>, in the order the backtracking of the JavaScript engine tries them (greedy
  first), each as the text of the capturing group, if it took part, and the input that
  is left. A \<open>*\<close> iteration that consumes nothing is not repeated.
\<close>

function matches :: "regex \<Rightarrow> jsstring \<Rightarrow> (jsstring option \<times> jsstring) list" where
  "matches (Lit w) s = (if prefixCI w s then [(None, drop (length w) s)] else [])"
| "matches Digit s = (case s of [] \<Rightarrow> [] | c # cs \<Rightarrow> if isDigit c then [(None, cs)] else [])"
| "matches Space s = (case s of [] \<Rightarrow> [] | c # cs \<Rightarrow> if isWhiteSpace c then [(None, cs)] else [])"
| "matches (Seq a b) s =
     concat (map (\<lambda>(c1, s1). map (\<lambda>(c2, s2). (orElse c2 c1, s2)) (matches b s1)) (matches a s))"
| "matches (Alt a b) s = matches a s @ matches b s"
| "matches (Opt a) s = matches a s @ [(None, s)]"
| "matches (Star a) s =
     concat (map (\<lambda>(c1, s1).
                if length s1 < length s
                then map (\<lambda>(c2, s2). (orElse c2 c1, s2)) (matches (Star a) s1)
                else []) (matches a s))
     @ [(None, s)]"
| "matches (Group a) s =
     map (\<lambda>(c, s1). (Some (take (length s - length s1) s), s1)) (matches a s)"
  by pat_completeness auto
termination
  by (relation "measures [\<lambda>(r, s). size r, \<lambda>(r, s). length s]") auto

declare matches.simps [simp del]

text \<open>
  \<open>text.match(pattern)\<close> without the flag \<open>g\<close>: the first match at the leftmost
  position that has one, as \<open>(match[0], match[1])\<close>, or \<open>None\<close> for \<open>null\<close>.
\<close>

definition matchAt :: "regex \<Rightarrow> jsstring \<Rightarrow> (jsstring \<times> jsstring option) option" where
  "matchAt r s =
     (case matches r s of
        [] \<Rightarrow> None
      | (c, rest) # _ \<Rightarrow> Some (take (length s - length rest) s, c))"

fun match :: "jsstring \<Rightarrow> regex \<Rightarrow> (jsstring \<times> jsstring option) option" where
  "match [] r = matchAt r []"
| "match (c # cs) r =
     (case matchAt r (c # cs) of
        Some m \<Rightarrow> Some m
      | None \<Rightarrow> match cs r)"

text \<open>
  \<open>pattern.source.includes('K')\<close>: in the source text of a pattern every letter of the
  syntax (\<open>\d\<close>, \<open>\s\<close>) is lower case, so an upper-case \<open>K\<close> is there exactly when a
  literal of the pattern has one.
\<close>

fun sourceIncludes :: "nat \<Rightarrow> regex \<Rightarrow> bool" where
  "sourceIncludes k (Lit w) = (k \<in> set w)"
| "sourceIncludes k Digit = False"
| "sourceIncludes k Space = False"
| "sourceIncludes k (Seq a b) = (sourceIncludes k a \<or> sourceIncludes k b)"
| "sourceIncludes k (Alt a b) = (sourceIncludes k a \<or> sourceIncludes k b)"
| "sourceIncludes k (Opt a) = sourceIncludes k a"
| "sourceIncludes k (Star a) = sourceIncludes k a"
| "sourceIncludes k (Group a) = sourceIncludes k a"

section \<open>Ad-count extraction (scrapeAdTransparency, search page)\<close>

text \<open>
  \<^verbatim>\<open>
  const adCountPatterns = [
    /(\d+(?:\.\d+)?)\s*K\s*(?:ads?|<modaot>)/i,
    /(?:about|<beerech>|approximately)\s*(\d+(?:\.\d+)?)\s*K/i,
    /(\d+(?:,\d+)?)\s*(?:ads?|<modaot>)/i
  ];
  \<close>
  where \<open><modaot>\<close> and \<open><beerech>\<close> stand for the Hebrew words for "ads" and "about".
\<close>

definition modaot :: jsstring where
  "modaot = [1502, 1493, 1491, 1506, 1493, 1514]"

definition beerech :: jsstring where
  "beerech = [1489, 1506, 1512, 1498]"

definition adsUnit :: regex where
  "adsUnit = Alt (Seq (Lit (asc ''ad'')) (Opt (Lit (asc ''s'')))) (Lit modaot)"

definition decimalNumber :: regex where
  "decimalNumber = Seq (OneOrMore Digit) (Opt (Seq (Lit (asc ''.'')) (OneOrMore Digit)))"

definition commaNumber :: regex where
  "commaNumber = Seq (OneOrMore Digit) (Opt (Seq (Lit (asc '','')) (OneOrMore Digit)))"

definition patternKAds :: regex where
  "patternKAds =
     Seq (Group decimalNumber) (Seq (Star Space) (Seq (Lit (asc ''K'')) (Seq (Star Space) adsUnit)))"

definition patternAboutK :: regex where
  "patternAboutK =
     Seq (Alt (Lit (asc ''about'')) (Alt (Lit beerech) (Lit (asc ''approximately''))))
       (Seq (Star Space) (Seq (Group decimalNumber) (Seq (Star Space) (Lit (asc ''K'')))))"

definition patternPlainAds :: regex where
  "patternPlainAds = Seq (Group commaNumber) (Seq (Star Space) adsUnit)"

definition adCountPatterns :: "regex list" where
  "adCountPatterns = [patternKAds, patternAboutK, patternPlainAds]"

text \<open>
  Numbers. A JavaScript Number is an IEEE 754 double. The counts are never negative, so
  a double is here \<open>NaN\<close>, positive infinity or a finite value, kept as the exact
  fraction it stands for. \<open>toDouble n d\<close> is the Number value of the fraction
  \<open>n / d\<close>: the nearest double, ties to the even mantissa, with the 53-bit mantissa,
  the least exponent \<open>-1074\<close> of the subnormal range and infinity from \<open>2^1024\<close> on.
\<close>

datatype double = NotANumber | PosInfinity | Finite nat nat

fun bitLength :: "nat \<Rightarrow> nat" where
  "bitLength n = (if n = 0 then 0 else Suc (bitLength (n div 2)))"

declare bitLength.simps [simp del]

definition roundHalfEven :: "nat \<Rightarrow> nat \<Rightarrow> nat" where
  "roundHalfEven n d =
     (let q = n div d; r = n mod d
      in if 2 * r < d then q
         else if d < 2 * r then q + 1
         else if even q then q else q + 1)"

definition toDouble :: "nat \<Rightarrow> nat \<Rightarrow> double" where
  "toDouble n d =
     (if n = 0 then Finite 0 1
      else (let k = int (bitLength n) - int (bitLength d);
                ex = (if d * 2 ^ nat k \<le> n * 2 ^ nat (- k) then k else k - 1);
                sh = max (ex - 52) (- 1074)
            in if 0 \<le> sh
               then (let m = roundHalfEven n (d * 2 ^ nat sh)
                     in if 2 ^ 1024 \<le> m * 2 ^ nat sh then PosInfinity
                        else Finite (m * 2 ^ nat sh) 1)
               else Finite (roundHalfEven (n * 2 ^ nat (- sh)) d) (2 ^ nat (- sh))))"

text \<open>
  \<open>parseFloat\<close> on a string of digits with at most one point, which is all that the
  capturing groups of the three patterns can hold once the commas are removed: the
  double nearest to the decimal, \<open>NaN\<close> when there is no digit. Applied to a Number,
  as in \<open>parseFloat(count)\<close> after the multiplication, it gives the Number back.
\<close>

definition natOfDigits :: "jsstring \<Rightarrow> nat" where
  "natOfDigits ds = foldl (\<lambda>acc c. 10 * acc + (c - 48)) 0 ds"

definition integerDigits :: "jsstring \<Rightarrow> jsstring" where
  "integerDigits s = takeWhile isDigit s"

definition fractionDigits :: "jsstring \<Rightarrow> jsstring" where
  "fractionDigits s =
     (case dropWhile isDigit s of
        [] \<Rightarrow> []
      | c # fs \<Rightarrow> if c = 46 then takeWhile isDigit fs else [])"

definition parseFloat :: "jsstring \<Rightarrow> double" where
  "parseFloat s =
     (if integerDigits s = [] \<and> fractionDigits s = [] then NotANumber
      else toDouble (natOfDigits (integerDigits s @ fractionDigits s))
             (10 ^ length (fractionDigits s)))"

text \<open>\<open>x * 1000\<close>: the double nearest to the exact product.\<close>

definition times1000 :: "double \<Rightarrow> double" where
  "times1000 x =
     (case x of
        NotANumber \<Rightarrow> NotANumber
      | PosInfinity \<Rightarrow> PosInfinity
      | Finite n d \<Rightarrow> toDouble (n * 1000) d)"

text \<open>
  \<open>Math.round\<close>: the nearest integer, a half going up; the result is an integer, so it
  is kept as a natural number.
\<close>

datatype jsnum = NaN | Infinity | Num nat

definition mathRound :: "double \<Rightarrow> jsnum" where
  "mathRound x =
     (case x of
        NotANumber \<Rightarrow> NaN
      | PosInfinity \<Rightarrow> Infinity
      | Finite n d \<Rightarrow> Num ((2 * n + d) div (2 * d)))"

definition includes_js :: "jsstring \<Rightarrow> jsstring \<Rightarrow> bool" where
  "includes_js s t = sublist t s"

definition stripMarks :: "jsstring \<Rightarrow> jsstring" where
  "stripMarks s = filter (\<lambda>c. c \<noteq> 8207 \<and> c \<noteq> 8206) s"

record adCount =
  totalAds :: jsnum
  totalAdsText :: jsstring

text \<open>
  The loop over the patterns: the first pattern that matches anywhere in the text sets
  both fields and ends the loop.
  \<^verbatim>\<open>
  for (const pattern of adCountPatterns) {
    const match = cleanText.match(pattern);
    if (match) {
      let count = match[1].replace(/,/g, '');
      if (pattern.source.includes('K')) { count = parseFloat(count) * 1000; }
      result.totalAds = Math.round(parseFloat(count));
      result.totalAdsText = match[0].trim();
      break;
    }
  }
  \<close>
  Every pattern has its capturing group outside any alternative, so \<open>match[1]\<close> is a
  string whenever there is a match; the model reads an absent group as the empty string.
\<close>

definition matchedCount :: "jsstring \<times> jsstring option \<Rightarrow> jsstring" where
  "matchedCount m = filter (\<lambda>c. c \<noteq> 44) (case snd m of None \<Rightarrow> [] | Some g \<Rightarrow> g)"

definition recordMatch :: "regex \<Rightarrow> jsstring \<times> jsstring option \<Rightarrow> adCount \<Rightarrow> adCount" where
  "recordMatch pattern m result =
     result\<lparr>totalAds :=
              mathRound (if sourceIncludes 75 pattern
                         then times1000 (parseFloat (matchedCount m))
                         else parseFloat (matchedCount m)),
            totalAdsText := trim (fst m)\<rparr>"

fun countAds :: "regex list \<Rightarrow> jsstring \<Rightarrow> adCount \<Rightarrow> adCount" where
  "countAds [] cleanText result = result"
| "countAds (pattern # patterns) cleanText result =
     (case match cleanText pattern of
        None \<Rightarrow> countAds patterns cleanText result
      | Some m \<Rightarrow> recordMatch pattern m result)"

text \<open>
  The part of the search page evaluation that sets \<open>totalAds\<close> and \<open>totalAdsText\<close>: the
  early return on a "no ads" message, then the pattern loop on the text without
  directional marks.
\<close>

definition einModaot :: jsstring where
  "einModaot = [1488, 1497, 1503, 32, 1502, 1493, 1491, 1506, 1493, 1514]"

definition hasNoAdsMessage :: "jsstring \<Rightarrow> bool" where
  "hasNoAdsMessage rawText \<longleftrightarrow>
     includes_js rawText (asc ''No ads match'') \<or> includes_js rawText (asc ''No results'') \<or>
     includes_js rawText einModaot"

definition extractAdCount :: "jsstring \<Rightarrow> adCount" where
  "extractAdCount rawText =
     (let result = \<lparr>totalAds = Num 0, totalAdsText = []\<rparr>
      in if hasNoAdsMessage rawText then result
         else countAds adCountPatterns (stripMarks rawText) result)"

text \<open>
  \<open>noMatchStartingIn r pre rest\<close>: in the text \<open>pre @ rest\<close>, the pattern \<open>r\<close> has no
  match that starts at a position of \<open>pre\<close>.
\<close>

fun noMatchStartingIn :: "regex \<Rightarrow> jsstring \<Rightarrow> jsstring \<Rightarrow> bool" where
  "noMatchStartingIn r [] rest = True"
| "noMatchStartingIn r (c # pre) rest =
     (matchAt r (c # pre @ rest) = None \<and> noMatchStartingIn r pre rest)"

section \<open>Creatives and format detection (scrapeAdTransparency, search page)\<close>

text \<open>
  A \<open>creative-preview\<close> element is seen through \<open>querySelector\<close> only, which returns
  the first descendant, in document order, that the selector matches. The element is
  modelled as the list of its descendants in document order, each with its tag name
  (lower case) and its \<open>src\<close> attribute, if it has one.
\<close>

record element =
  tagName :: jsstring
  srcAttr :: "jsstring option"

type_synonym creativePreview = "element list"

definition querySelector :: "(element \<Rightarrow> bool) \<Rightarrow> creativePreview \<Rightarrow> element option" where
  "querySelector selector el = find selector el"

text \<open>The selector \<open>video\<close>.\<close>

definition videoSelector :: "element \<Rightarrow> bool" where
  "videoSelector e \<longleftrightarrow> tagName e = asc ''video''"

text \<open>The selector \<open>img[src*="googlesyndication"], img[src*="googleusercontent"]\<close>.\<close>

definition adImageSelector :: "element \<Rightarrow> bool" where
  "adImageSelector e \<longleftrightarrow>
     tagName e = asc ''img'' \<and>
     (case srcAttr e of
        None \<Rightarrow> False
      | Some s \<Rightarrow> includes_js s (asc ''googlesyndication'') \<or>
                  includes_js s (asc ''googleusercontent''))"

text \<open>
  \<^verbatim>\<open>
  const hasVideo = videoEl !== null;
  const hasImage = imgEl !== null;
  let adFormat = 'Text';
  if (hasVideo) adFormat = 'Video';
  else if (hasImage) adFormat = 'Image';
  \<close>
\<close>

definition adFormat :: "creativePreview \<Rightarrow> jsstring" where
  "adFormat el =
     (let imgEl = querySelector adImageSelector el;
          videoEl = querySelector videoSelector el;
          hasVideo = (videoEl \<noteq> None);
          hasImage = (imgEl \<noteq> None)
      in if hasVideo then asc ''Video'' else if hasImage then asc ''Image'' else asc ''Text'')"

section \<open>Merging the detail pages into the scan data (scrapeAdTransparency)\<close>

text \<open>
  The parts of \<open>data\<close> that the two detail pages read or write. A field that can be
  \<open>null\<close> or absent is an option; a string is truthy when it is neither \<open>null\<close> nor
  empty.
\<close>

definition truthy :: "jsstring option \<Rightarrow> bool" where
  "truthy v = (case v of None \<Rightarrow> False | Some s \<Rightarrow> s \<noteq> [])"

record advertiser =
  advId :: "jsstring option"
  advName :: "jsstring option"
  legalName :: "jsstring option"
  verified :: bool
  location :: "jsstring option"

record ad =
  creativeId :: "jsstring option"
  format :: jsstring
  adText :: jsstring

text \<open>
  A publisher summary, as the scheduled run reads it from \<open>data.publishers\<close>.
\<close>

record publisher =
  pubName :: "jsstring option"
  pubId :: "jsstring option"
  pubVerified :: bool
  pubLocation :: "jsstring option"
  pubAdFormats :: "jsstring list"
  pubLastSeenDate :: "jsstring option"
  pubAds :: "ad list"

record scanData =
  advertiserOf :: "advertiser option"
  dataTotalAds :: jsnum
  ads :: "ad list"
  publishers :: "publisher list"
  adFormats :: "jsstring list"
  lastSeenDate :: "jsstring option"
  shownInRegions :: "jsstring option"
  screenshot :: "jsstring option"

text \<open>What the evaluation of the advertiser page returns.\<close>

record advertiserDetails =
  detLegalName :: "jsstring option"
  detLocation :: "jsstring option"
  detVerified :: bool

text \<open>What the evaluation of the creative page returns.\<close>

record adDetails =
  detLastSeenDate :: "jsstring option"
  detFormat :: "jsstring option"
  detShownIn :: "jsstring option"

text \<open>
  \<^verbatim>\<open>
  if (advertiserDetails.legalName) { data.advertiser.legalName = advertiserDetails.legalName; }
  if (advertiserDetails.location) {
    data.advertiser.location = translateToEnglish(advertiserDetails.location);
  }
  if (advertiserDetails.verified) { data.advertiser.verified = true; }
  \<close>
\<close>

definition mergeAdvertiserDetails :: "advertiserDetails \<Rightarrow> advertiser \<Rightarrow> advertiser" where
  "mergeAdvertiserDetails details adv =
     (let adv = (if truthy (detLegalName details)
                 then adv\<lparr>legalName := detLegalName details\<rparr> else adv);
          adv = (if truthy (detLocation details)
                 then adv\<lparr>location := map_option translateToEnglish (detLocation details)\<rparr>
                 else adv);
          adv = (if detVerified details then adv\<lparr>verified := True\<rparr> else adv)
      in adv)"

text \<open>
  \<^verbatim>\<open>
  if (adDetails.lastSeenDate) { data.lastSeenDate = translateToEnglish(adDetails.lastSeenDate); }
  if (adDetails.format && !data.adFormats.includes(adDetails.format)) {
    data.adFormats.push(adDetails.format);
  }
  if (adDetails.shownIn) { data.shownInRegions = translateToEnglish(adDetails.shownIn); }
  \<close>
\<close>

definition mergeAdDetails :: "adDetails \<Rightarrow> scanData \<Rightarrow> scanData" where
  "mergeAdDetails details data =
     (let data = (if truthy (detLastSeenDate details)
                  then data\<lparr>lastSeenDate := map_option translateToEnglish (detLastSeenDate details)\<rparr>
                  else data);
          data = (case detFormat details of
                    None \<Rightarrow> data
                  | Some f \<Rightarrow>
                      if f \<noteq> [] \<and> f \<notin> set (adFormats data)
                      then data\<lparr>adFormats := adFormats data @ [f]\<rparr> else data);
          data = (if truthy (detShownIn details)
                  then data\<lparr>shownInRegions := map_option translateToEnglish (detShownIn details)\<rparr>
                  else data)
      in data)"

text \<open>
  The scan after the search page. Each detail page is visited only under its guard; a
  visit either throws (navigation failure), which the \<open>catch\<close> of the scan turns into
  a failed result, or returns the details. The oracles \<open>advertiserPage\<close> and
  \<open>creativePage\<close> say what a visit would do, and \<open>shot\<close> what taking the screenshot
  does.
\<close>

datatype 'a visit = Threw jsstring | Returned 'a

datatype scanResult = Failed jsstring | Completed scanData

definition hasAdvertiserId :: "scanData \<Rightarrow> bool" where
  "hasAdvertiserId data = (case advertiserOf data of None \<Rightarrow> False | Some adv \<Rightarrow> truthy (advId adv))"

definition hasFirstCreative :: "scanData \<Rightarrow> bool" where
  "hasFirstCreative data \<longleftrightarrow>
     (case ads data of [] \<Rightarrow> False | a # _ \<Rightarrow> truthy (creativeId a)) \<and> hasAdvertiserId data"

definition fetchDetails ::
  "advertiserDetails visit \<Rightarrow> adDetails visit \<Rightarrow> jsstring visit \<Rightarrow> scanData \<Rightarrow> scanResult" where
  "fetchDetails advertiserPage creativePage shot data =
     (case (if hasAdvertiserId data
            then (case advertiserPage of
                    Threw e \<Rightarrow> Failed e
                  | Returned details \<Rightarrow>
                      Completed (data\<lparr>advertiserOf :=
                        map_option (mergeAdvertiserDetails details) (advertiserOf data)\<rparr>))
            else Completed data) of
        Failed e \<Rightarrow> Failed e
      | Completed data \<Rightarrow>
          (case (if hasFirstCreative data
                 then (case creativePage of
                         Threw e \<Rightarrow> Failed e
                       | Returned details \<Rightarrow> Completed (mergeAdDetails details data))
                 else Completed data) of
             Failed e \<Rightarrow> Failed e
           | Completed data \<Rightarrow>
               (case shot of
                  Threw e \<Rightarrow> Failed e
                | Returned base64 \<Rightarrow> Completed (data\<lparr>screenshot := Some base64\<rparr>))))"

text \<open>The five supplementary fields, read off the scan data.\<close>

definition legalNameOf :: "scanData \<Rightarrow> jsstring option" where
  "legalNameOf data = (case advertiserOf data of None \<Rightarrow> None | Some adv \<Rightarrow> legalName adv)"

definition locationOf :: "scanData \<Rightarrow> jsstring option" where
  "locationOf data = (case advertiserOf data of None \<Rightarrow> None | Some adv \<Rightarrow> location adv)"

definition verifiedOf :: "scanData \<Rightarrow> bool" where
  "verifiedOf data = (case advertiserOf data of None \<Rightarrow> False | Some adv \<Rightarrow> verified adv)"

section \<open>The scheduled batch run (runScheduledScan)\<close>

text \<open>
  A result row, as \<open>runScheduledScan\<close> builds it. \<open>rowError\<close> is present on error rows
  only.
\<close>

record row =
  rowDomain :: jsstring
  publisherName :: jsstring
  publisherId :: jsstring
  rowCreativeId :: jsstring
  publisherVerified :: bool
  publisherLocation :: jsstring
  rowTotalAds :: jsnum
  adsInView :: nat
  rowAdFormats :: "jsstring list"
  rowLastSeenDate :: jsstring
  adImageUrl :: jsstring
  rowAdText :: jsstring
  adsTransparencyUrl :: jsstring
  scanDate :: jsstring
  status :: jsstring
  rowError :: "jsstring option"





































section \<open>The auto-run scheduler (startAutoRun, stopAutoRun, runScheduledScan)\<close>

text \<open>
  The module-level object \<open>autoRunState\<close>. \<open>scheduledTask\<close> holds the handle of the
  last timer set, if any.
\<close>

record autoRunState =
  enabled :: bool
  intervalMinutes :: nat
  isRunning :: bool
  lastRunTime :: "jsstring option"
  nextRunTime :: "jsstring option"
  lastResults :: "row list option"
  scheduledTask :: "nat option"
  appsScriptUrl :: "jsstring option"
  domains :: "jsstring list"
  batchSize :: nat

text \<open>
  The server: the scheduler state, the timers that are set and have neither fired nor
  been cleared, the next fresh timer handle, and the number of calls of
  \<open>runScheduledScan\<close> that have passed its two guards and not yet finished: the runs
  in progress. JavaScript runs each piece of code between two \<open>await\<close>s without
  interruption, so a request handler, a timer callback, the entry of a run up to its
  first \<open>await\<close> and the exit of a run after its last one are single steps.
\<close>

record server =
  auto :: autoRunState
  timers :: "nat set"
  nextTimer :: nat
  runs :: nat

definition initialServer :: server where
  "initialServer =
     \<lparr>auto = \<lparr>enabled = False, intervalMinutes = 1, isRunning = False, lastRunTime = None,
              nextRunTime = None, lastResults = None, scheduledTask = None,
              appsScriptUrl = None, domains = [], batchSize = 5\<rparr>,
      timers = {}, nextTimer = 0, runs = 0\<rparr>"

text \<open>
  \<^verbatim>\<open>
  function stopAutoRun() {
    if (autoRunState.scheduledTask) {
      clearTimeout(autoRunState.scheduledTask);
      autoRunState.scheduledTask = null;
    }
    autoRunState.enabled = false;
    autoRunState.nextRunTime = null;
  }
  \<close>
\<close>

definition clearScheduledTask :: "server \<Rightarrow> server" where
  "clearScheduledTask s =
     (case scheduledTask (auto s) of
        None \<Rightarrow> s
      | Some h \<Rightarrow> s\<lparr>timers := timers s - {h}, auto := (auto s)\<lparr>scheduledTask := None\<rparr>\<rparr>)"

definition stopAutoRun :: "server \<Rightarrow> server" where
  "stopAutoRun s =
     (let s = clearScheduledTask s
      in s\<lparr>auto := (auto s)\<lparr>enabled := False, nextRunTime := None\<rparr>\<rparr>)"

text \<open>
  The entry of \<open>runScheduledScan\<close>, up to its first \<open>await\<close>: the two guards, then the
  flag and the time of the run. \<open>clock\<close> is \<open>new Date().toISOString()\<close>.
  \<^verbatim>\<open>
  if (autoRunState.isRunning) { ...; return; }
  if (!autoRunState.domains || autoRunState.domains.length === 0) { ...; return; }
  autoRunState.isRunning = true;
  autoRunState.lastRunTime = new Date().toISOString();
  \<close>
\<close>

definition runEntry :: "jsstring \<Rightarrow> server \<Rightarrow> server" where
  "runEntry clock s =
     (if isRunning (auto s) then s
      else if domains (auto s) = [] then s
      else s\<lparr>auto := (auto s)\<lparr>isRunning := True, lastRunTime := Some clock\<rparr>,
             runs := runs s + 1\<rparr>)"

text \<open>
  \<^verbatim>\<open>
  function updateNextRunTime() {
    if (autoRunState.enabled && autoRunState.intervalMinutes > 0) {
      ...; autoRunState.nextRunTime = next.toISOString();
    } else { autoRunState.nextRunTime = null; }
  }
  function scheduleNextRun() {
    if (!autoRunState.enabled) { return; }
    if (autoRunState.scheduledTask) { clearTimeout(...); autoRunState.scheduledTask = null; }
    ...
    autoRunState.scheduledTask = setTimeout(() => { runScheduledScan(); }, intervalMs);
  }
  \<close>
\<close>

definition updateNextRunTime :: "jsstring \<Rightarrow> server \<Rightarrow> server" where
  "updateNextRunTime next s =
     (if enabled (auto s) \<and> 0 < intervalMinutes (auto s)
      then s\<lparr>auto := (auto s)\<lparr>nextRunTime := Some next\<rparr>\<rparr>
      else s\<lparr>auto := (auto s)\<lparr>nextRunTime := None\<rparr>\<rparr>)"

definition scheduleNextRun :: "server \<Rightarrow> server" where
  "scheduleNextRun s =
     (if \<not> enabled (auto s) then s
      else (let s = clearScheduledTask s
            in s\<lparr>auto := (auto s)\<lparr>scheduledTask := Some (nextTimer s)\<rparr>,
                  timers := insert (nextTimer s) (timers s),
                  nextTimer := nextTimer s + 1\<rparr>))"

text \<open>
  The exit of a run, after its last \<open>await\<close>:
  \<^verbatim>\<open>
  autoRunState.lastResults = allResults;
  autoRunState.isRunning = false;
  updateNextRunTime();
  scheduleNextRun();
  \<close>
\<close>

definition runExit :: "row list \<Rightarrow> jsstring \<Rightarrow> server \<Rightarrow> server" where
  "runExit results next s =
     (let s = s\<lparr>auto := (auto s)\<lparr>lastResults := Some results, isRunning := False\<rparr>,
                 runs := runs s - 1\<rparr>
      in scheduleNextRun (updateNextRunTime next s))"

text \<open>A timer that is set fires: its callback calls \<open>runScheduledScan\<close>.\<close>

definition timerFires :: "nat \<Rightarrow> jsstring \<Rightarrow> server \<Rightarrow> server" where
  "timerFires h clock s = runEntry clock (s\<lparr>timers := timers s - {h}\<rparr>)"

text \<open>JSON values and objects of the responses.\<close>

datatype json = JNull | JBool bool | JNum nat | JStr jsstring

type_synonym jsonObject = "(string \<times> json) list"

definition jsonOfString :: "jsstring option \<Rightarrow> json" where
  "jsonOfString v = (case v of None \<Rightarrow> JNull | Some s \<Rightarrow> JStr s)"

text \<open>
  \<^verbatim>\<open>
  function startAutoRun() {
    stopAutoRun(); // Clear any existing
    if (autoRunState.intervalMinutes < 1) {
      return { success: false, error: 'Interval must be at least 1 minute' };
    }
    autoRunState.enabled = true;
    ...
    runScheduledScan();
    return { success: true };
  }
  \<close>
\<close>

definition startAutoRun :: "jsstring \<Rightarrow> server \<Rightarrow> server \<times> jsonObject" where
  "startAutoRun clock s =
     (let s = stopAutoRun s
      in if intervalMinutes (auto s) < 1
         then (s, [(''success'', JBool False),
                   (''error'', JStr (asc ''Interval must be at least 1 minute''))])
         else (runEntry clock (s\<lparr>auto := (auto s)\<lparr>enabled := True\<rparr>\<rparr>),
               [(''success'', JBool True)]))"

text \<open>
  The body of a request to \<open>POST /auto-run/start\<close>. A field is \<open>None\<close> when it is
  absent; \<open>reqDomains\<close> is \<open>None\<close> also when the value is not an array.
\<close>

record startRequest =
  reqIntervalMinutes :: "nat option"
  reqAppsScriptUrl :: "jsstring option"
  reqDomains :: "jsstring list option"
  reqBatchSize :: "nat option"

text \<open>
  \<^verbatim>\<open>
  app.post('/auto-run/start', (req, res) => {
    const { intervalMinutes, appsScriptUrl, domains, batchSize } = req.body;
    if (!domains || !Array.isArray(domains) || domains.length === 0) {
      return res.status(400).json({ success: false, error: 'No domains provided' });
    }
    if (!intervalMinutes || intervalMinutes < 1) {
      return res.status(400).json({ success: false, error: 'Interval must be at least 1 minute' });
    }
    autoRunState.intervalMinutes = intervalMinutes;
    autoRunState.appsScriptUrl = appsScriptUrl;
    autoRunState.domains = domains;
    autoRunState.batchSize = batchSize || 5;
    const result = startAutoRun();
    res.json({ ...result, intervalMinutes: autoRunState.intervalMinutes,
      nextRunTime: autoRunState.nextRunTime, domainsCount: autoRunState.domains.length });
  });
  \<close>
\<close>

definition postStart :: "startRequest \<Rightarrow> jsstring \<Rightarrow> server \<Rightarrow> server \<times> jsonObject" where
  "postStart req clock s =
     (case reqDomains req of
        None \<Rightarrow> (s, [(''success'', JBool False), (''error'', JStr (asc ''No domains provided''))])
      | Some ds \<Rightarrow>
          if ds = []
          then (s, [(''success'', JBool False), (''error'', JStr (asc ''No domains provided''))])
          else (case reqIntervalMinutes req of
                  None \<Rightarrow> (s, [(''success'', JBool False),
                                (''error'', JStr (asc ''Interval must be at least 1 minute''))])
                | Some m \<Rightarrow>
                    if m < 1
                    then (s, [(''success'', JBool False),
                              (''error'', JStr (asc ''Interval must be at least 1 minute''))])
                    else (let s = s\<lparr>auto := (auto s)\<lparr>intervalMinutes := m,
                                      appsScriptUrl := reqAppsScriptUrl req,
                                      domains := ds,
                                      batchSize := (case reqBatchSize req of
                                                      None \<Rightarrow> 5
                                                    | Some b \<Rightarrow> if b = 0 then 5 else b)\<rparr>\<rparr>;
                              (s, result) = startAutoRun clock s
                          in (s, result @
                                 [(''intervalMinutes'', JNum (intervalMinutes (auto s))),
                                  (''nextRunTime'', jsonOfString (nextRunTime (auto s))),
                                  (''domainsCount'', JNum (length (domains (auto s))))]))))"

text \<open>\<open>POST /auto-run/stop\<close> and \<open>GET /auto-run/status\<close>.\<close>

definition postStop :: "server \<Rightarrow> server \<times> jsonObject" where
  "postStop s = (stopAutoRun s, [(''success'', JBool True), (''enabled'', JBool False)])"

definition getStatus :: "server \<Rightarrow> jsonObject" where
  "getStatus s =
     [(''enabled'', JBool (enabled (auto s))),
      (''intervalMinutes'', JNum (intervalMinutes (auto s))),
      (''isRunning'', JBool (isRunning (auto s))),
      (''lastRunTime'', jsonOfString (lastRunTime (auto s))),
      (''nextRunTime'', jsonOfString (nextRunTime (auto s))),
      (''domainsCount'', JNum (length (domains (auto s))))]"

text \<open>
  The states the server can reach: from the initial one by start and stop requests, by
  a set timer firing, by a run in progress reaching its exit, and by a run in progress
  ending on an error that escapes it, which skips the exit and leaves the flag set.
\<close>

inductive reachable :: "server \<Rightarrow> bool" where
  initial: "reachable initialServer"
| start: "reachable s \<Longrightarrow> reachable (fst (postStart req clock s))"
| stop: "reachable s \<Longrightarrow> reachable (fst (postStop s))"
| timer: "reachable s \<Longrightarrow> h \<in> timers s \<Longrightarrow> reachable (timerFires h clock s)"
| finish: "reachable s \<Longrightarrow> 0 < runs s \<Longrightarrow> reachable (runExit results next s)"
| abort: "reachable s \<Longrightarrow> 0 < runs s \<Longrightarrow> reachable (s\<lparr>runs := runs s - 1\<rparr>)"

text \<open>A request for examples, and the server after it is posted to the initial server.\<close>

definition exampleRequest :: startRequest where
  "exampleRequest =
     \<lparr>reqIntervalMinutes = Some 60,
      reqAppsScriptUrl = Some (asc ''https://script.example/exec''),
      reqDomains = Some [asc ''a.com'', asc ''b.com''],
      reqBatchSize = None\<rparr>"

definition runningServer :: server where
  "runningServer = fst (postStart exampleRequest (asc ''t0'') initialServer)"

text \<open>
  The invariant of the flag: at most one run is in progress, and while one is the flag
  \<open>isRunning\<close> is set.
\<close>

definition runInvariant :: "server \<Rightarrow> bool" where
  "runInvariant s \<longleftrightarrow> runs s \<le> 1 \<and> (runs s = 1 \<longrightarrow> isRunning (auto s))"

section \<open>Normalization: lengths and fixed points\<close>

lemma asc_simps [simp]:
  "asc ''https://'' = [104, 116, 116, 112, 115, 58, 47, 47]"
  "asc ''http://'' = [104, 116, 116, 112, 58, 47, 47]"
  "asc ''www.'' = [119, 119, 119, 46]"
  by (simp_all add: asc_def)

lemma length_trimStart: "length (trimStart s) \<le> length s"
  by (simp add: trimStart_def length_dropWhile_le)

lemma length_trimEnd: "length (trimEnd s) \<le> length s"
  using length_dropWhile_le [of isWhiteSpace "rev s"] by (simp add: trimEnd_def)

lemma length_trim: "length (trim s) \<le> length s"
  using length_trimEnd [of "trimStart s"] length_trimStart [of s] by (simp add: trim_def)

lemma length_stripScheme: "length (stripScheme s) \<le> length s"
  by (simp add: stripScheme_def)

lemma length_stripWww: "length (stripWww s) \<le> length s"
  by (simp add: stripWww_def)

lemma length_stripTrailingSlashes: "length (stripTrailingSlashes s) \<le> length s"
  using length_dropWhile_le [of "\<lambda>c. c = 47" "rev s"] by (simp add: stripTrailingSlashes_def)

lemma trimStart_id: "\<not> startsWithSpace s \<Longrightarrow> trimStart s = s"
  by (cases s) (simp_all add: trimStart_def startsWithSpace_def)

lemma trimEnd_id: "\<not> endsWithSpace s \<Longrightarrow> trimEnd s = s"
  by (cases "rev s") (simp_all add: trimEnd_def endsWithSpace_def startsWithSpace_def)

lemma trimStart_shorter: "startsWithSpace s \<Longrightarrow> length (trimStart s) < length s"
proof (cases s)
  case Nil
  assume "startsWithSpace s"
  with Nil show ?thesis by (simp add: startsWithSpace_def)
next
  case (Cons c cs)
  assume "startsWithSpace s"
  with Cons have "trimStart s = dropWhile isWhiteSpace cs"
    by (simp add: startsWithSpace_def trimStart_def)
  with Cons show ?thesis
    using length_dropWhile_le [of isWhiteSpace cs] by simp
qed

lemma trimEnd_shorter: "endsWithSpace s \<Longrightarrow> length (trimEnd s) < length s"
proof -
  assume "endsWithSpace s"
  then have "startsWithSpace (rev s)" by (simp add: endsWithSpace_def)
  then have "length (trimStart (rev s)) < length (rev s)" by (rule trimStart_shorter)
  then show ?thesis by (simp add: trimEnd_def trimStart_def)
qed

lemma trim_id: "\<not> startsWithSpace s \<Longrightarrow> \<not> endsWithSpace s \<Longrightarrow> trim s = s"
  by (simp add: trim_def trimStart_id trimEnd_id)

lemma trim_shorter:
  assumes "startsWithSpace s \<or> endsWithSpace s"
  shows "length (trim s) < length s"
proof (cases "startsWithSpace s")
  case True
  then show ?thesis
    using trimStart_shorter [of s] length_trimEnd [of "trimStart s"] by (simp add: trim_def)
next
  case False
  with assms have "endsWithSpace s" by simp
  with False show ?thesis
    using trimEnd_shorter [of s] by (simp add: trim_def trimStart_id)
qed

lemma length_after_trim:
  "length (stripTrailingSlashes (stripWww (stripScheme t))) \<le> length t"
  using length_stripTrailingSlashes [of "stripWww (stripScheme t)"]
    length_stripWww [of "stripScheme t"] length_stripScheme [of t]
  by linarith

lemma length_normalize: "length (normalizeDomain s) \<le> length s"
  using length_after_trim [of "trim s"] length_trim [of s] by (simp add: normalizeDomain_def)

lemma stripTrailingSlashes_no_slash:
  "stripTrailingSlashes d = [] \<or> last (stripTrailingSlashes d) \<noteq> 47"
proof (cases "dropWhile (\<lambda>c. c = 47) (rev d)")
  case Nil
  then show ?thesis by (simp add: stripTrailingSlashes_def)
next
  case (Cons c cs)
  then have "c \<noteq> 47"
    using hd_dropWhile [of "\<lambda>c. c = 47" "rev d"] by auto
  with Cons show ?thesis by (simp add: stripTrailingSlashes_def)
qed

lemma stripTrailingSlashes_id:
  "d = [] \<or> last d \<noteq> 47 \<Longrightarrow> stripTrailingSlashes d = d"
  by (cases "rev d") (auto simp: stripTrailingSlashes_def last_rev [symmetric]
      simp del: last_rev)

lemma stripTrailingSlashes_idem:
  "stripTrailingSlashes (stripTrailingSlashes d) = stripTrailingSlashes d"
  using stripTrailingSlashes_no_slash [of d] by (rule stripTrailingSlashes_id)

lemma normalize_no_slash: "normalizeDomain x = [] \<or> last (normalizeDomain x) \<noteq> 47"
  unfolding normalizeDomain_def by (rule stripTrailingSlashes_no_slash)

lemma normalize_clean_id:
  assumes "\<not> startsWithSpace y" "\<not> endsWithSpace y" "\<not> hasStrippablePrefix y"
    and "y = [] \<or> last y \<noteq> 47"
  shows "normalizeDomain y = y"
proof -
  have "trim y = y" using assms(1,2) by (rule trim_id)
  moreover have "stripScheme y = y"
    using assms(3) by (simp add: stripScheme_def hasStrippablePrefix_def)
  moreover have "stripWww y = y"
    using assms(3) by (simp add: stripWww_def hasStrippablePrefix_def)
  moreover have "stripTrailingSlashes y = y"
    using assms(4) by (rule stripTrailingSlashes_id)
  ultimately show ?thesis by (simp add: normalizeDomain_def)
qed

lemma normalize_dirty_shorter:
  assumes "startsWithSpace y \<or> endsWithSpace y \<or> hasStrippablePrefix y"
  shows "length (normalizeDomain y) < length y"
proof (cases "startsWithSpace y \<or> endsWithSpace y")
  case True
  then have "length (trim y) < length y" by (rule trim_shorter)
  then show ?thesis
    using length_after_trim [of "trim y"] by (simp add: normalizeDomain_def)
next
  case False
  then have t: "trim y = y" by (simp add: trim_id)
  from False assms have p: "hasStrippablePrefix y" by simp
  have "length (stripWww (stripScheme y)) < length y"
  proof (cases "prefix (asc ''https://'') y \<or> prefix (asc ''http://'') y")
    case True
    then have "y \<noteq> []" by auto
    with True have "length (stripScheme y) < length y"
      by (auto simp: stripScheme_def)
    then show ?thesis using length_stripWww [of "stripScheme y"] by linarith
  next
    case False
    then have s: "stripScheme y = y" by (simp add: stripScheme_def)
    from False p have "prefix (asc ''www.'') y" by (simp add: hasStrippablePrefix_def)
    then have "y \<noteq> []" by auto
    with \<open>prefix (asc ''www.'') y\<close> show ?thesis by (simp add: s stripWww_def)
  qed
  then show ?thesis
    using length_stripTrailingSlashes [of "stripWww (stripScheme y)"]
    by (simp add: normalizeDomain_def t)
qed

subsection \<open>Claims about normalization\<close>

text \<open>
  C6, as the code has it: \<open>normalizeDomain\<close> strips the scheme, the \<open>www.\<close> prefix and the
  trailing slash of \<open>https://www.Example.com/\<close> and keeps the case of every letter, so
  the result is \<open>Example.com\<close>.
\<close>

theorem normalize_example_keeps_case:
  "normalizeDomain (asc ''https://www.Example.com/'') = asc ''Example.com''"
  by (simp add: normalizeDomain_def asc_def trim_def trimStart_def trimEnd_def isWhiteSpace_def
      stripScheme_def stripWww_def stripTrailingSlashes_def)

text \<open>
  C6, as the spec states it, fails: the result is not the lower-case \<open>example.com\<close>.
\<close>

theorem normalize_example_not_lowercase:
  "normalizeDomain (asc ''https://www.Example.com/'') \<noteq> asc ''example.com''"
  by (simp add: normalizeDomain_def asc_def trim_def trimStart_def trimEnd_def isWhiteSpace_def
      stripScheme_def stripWww_def stripTrailingSlashes_def)

text \<open>
  C5, as the spec states it, fails: only one \<open>www.\<close> prefix is removed per call, so
  \<open>www.www.a.com\<close> normalizes to \<open>www.a.com\<close>, which normalizes to \<open>a.com\<close>.
\<close>

theorem normalize_not_idempotent:
  "normalizeDomain (normalizeDomain (asc ''www.www.a.com'')) \<noteq> normalizeDomain (asc ''www.www.a.com'')"
  by (simp add: normalizeDomain_def asc_def trim_def trimStart_def trimEnd_def isWhiteSpace_def
      stripScheme_def stripWww_def stripTrailingSlashes_def)

text \<open>
  C5, amended: normalizing twice gives the same string as normalizing once exactly when
  the string normalized once has nothing left to strip, that is, it neither starts nor
  ends with white space and does not start with \<open>http://\<close>, \<open>https://\<close> or \<open>www.\<close>.
\<close>

theorem normalize_idempotent_iff:
  "normalizeDomain (normalizeDomain x) = normalizeDomain x \<longleftrightarrow>
     \<not> startsWithSpace (normalizeDomain x) \<and> \<not> endsWithSpace (normalizeDomain x) \<and>
     \<not> hasStrippablePrefix (normalizeDomain x)"
proof
  assume eq: "normalizeDomain (normalizeDomain x) = normalizeDomain x"
  show "\<not> startsWithSpace (normalizeDomain x) \<and> \<not> endsWithSpace (normalizeDomain x) \<and>
     \<not> hasStrippablePrefix (normalizeDomain x)"
  proof (rule ccontr)
    assume "\<not> ?thesis"
    then have "length (normalizeDomain (normalizeDomain x)) < length (normalizeDomain x)"
      by (intro normalize_dirty_shorter) blast
    with eq show False by simp
  qed
next
  assume "\<not> startsWithSpace (normalizeDomain x) \<and> \<not> endsWithSpace (normalizeDomain x) \<and>
     \<not> hasStrippablePrefix (normalizeDomain x)"
  then show "normalizeDomain (normalizeDomain x) = normalizeDomain x"
    using normalize_no_slash [of x] by (intro normalize_clean_id) simp_all
qed

theorem normalize_idempotent_iff_witness:
  "\<not> startsWithSpace (normalizeDomain (asc ''https://www.Example.com/'')) \<and>
   \<not> endsWithSpace (normalizeDomain (asc ''https://www.Example.com/'')) \<and>
   \<not> hasStrippablePrefix (normalizeDomain (asc ''https://www.Example.com/'')) \<and>
   normalizeDomain (normalizeDomain (asc ''https://www.Example.com/'')) =
     normalizeDomain (asc ''https://www.Example.com/'')"
proof -
  have n: "normalizeDomain (asc ''https://www.Example.com/'') = asc ''Example.com''"
    by (simp add: normalizeDomain_def asc_def trim_def trimStart_def trimEnd_def isWhiteSpace_def
        stripScheme_def stripWww_def stripTrailingSlashes_def)
  have c: "\<not> startsWithSpace (asc ''Example.com'') \<and> \<not> endsWithSpace (asc ''Example.com'') \<and>
     \<not> hasStrippablePrefix (asc ''Example.com'')"
    by (simp add: asc_def startsWithSpace_def endsWithSpace_def hasStrippablePrefix_def
        isWhiteSpace_def)
  show ?thesis
    using c normalize_idempotent_iff [of "asc ''https://www.Example.com/''"]
    unfolding n by blast
qed

section \<open>The substitution leaves no key behind\<close>

lemma replaceAll_absent:
  "k \<noteq> [] \<Longrightarrow> \<not> sublist k s \<Longrightarrow> replaceAll k r s = s"
  by (induction s) (auto simp: sublist_Cons_right)

lemma prefix_replaceAll:
  "k \<noteq> [] \<Longrightarrow> r \<noteq> [] \<Longrightarrow> hd r \<notin> set p \<Longrightarrow> prefix p (replaceAll k r t) \<Longrightarrow> prefix p t"
proof (induction k r t arbitrary: p rule: replaceAll.induct)
  case (1 pat rep)
  then show ?case by simp
next
  case (2 pat rep c cs)
  show ?case
  proof (cases "prefix pat (c # cs)")
    case True
    with 2 have pr: "prefix p (rep @ replaceAll pat rep (drop (length pat) (c # cs)))"
      by simp
    have "p = []"
    proof (rule ccontr)
      assume "p \<noteq> []"
      with pr \<open>rep \<noteq> []\<close> have "hd p = hd rep"
        by (cases p; cases rep) (auto simp: prefix_Cons)
      with \<open>p \<noteq> []\<close> \<open>hd rep \<notin> set p\<close> show False
        by (cases p) auto
    qed
    then show ?thesis by simp
  next
    case False
    with 2 have pr: "prefix p (c # replaceAll pat rep cs)" by simp
    show ?thesis
    proof (cases p)
      case Nil
      then show ?thesis by simp
    next
      case (Cons a q)
      with pr have "a = c" and "prefix q (replaceAll pat rep cs)" by simp_all
      moreover from Cons \<open>hd rep \<notin> set p\<close> have "hd rep \<notin> set q" by simp
      ultimately have "prefix q cs"
        using "2.IH"(3) [of q] False \<open>pat \<noteq> []\<close> \<open>rep \<noteq> []\<close> by simp
      with Cons \<open>a = c\<close> show ?thesis by simp
    qed
  qed
qed

lemma sublist_append_fresh:
  "p \<noteq> [] \<Longrightarrow> hd p \<notin> set r \<Longrightarrow> \<not> sublist p t \<Longrightarrow> \<not> sublist p (r @ t)"
proof (induction r)
  case Nil
  then show ?case by simp
next
  case (Cons a r)
  then have "\<not> prefix p (a # r @ t)" by (cases p) auto
  with Cons show ?case by (simp add: sublist_Cons_right)
qed

lemma sublist_replaceAll_other:
  "k \<noteq> [] \<Longrightarrow> r \<noteq> [] \<Longrightarrow> p \<noteq> [] \<Longrightarrow> hd p \<notin> set r \<Longrightarrow> hd r \<notin> set p \<Longrightarrow>
   \<not> sublist p t \<Longrightarrow> \<not> sublist p (replaceAll k r t)"
proof (induction k r t rule: replaceAll.induct)
  case (1 pat rep)
  then show ?case by simp
next
  case (2 pat rep c cs)
  from "2.prems" have nopre: "\<not> prefix p (c # cs)" and notail: "\<not> sublist p cs"
    by (simp_all add: sublist_Cons_right)
  show ?case
  proof (cases "prefix pat (c # cs)")
    case True
    have "\<not> sublist p (drop (length pat) (c # cs))"
      using "2.prems"(6) sublist_drop sublist_order.order_trans by blast
    with "2.IH"(2) True "2.prems" have "\<not> sublist p (replaceAll pat rep (drop (length pat) (c # cs)))"
      by simp
    with "2.prems" True show ?thesis
      by (simp add: sublist_append_fresh)
  next
    case False
    with "2.IH"(3) "2.prems" notail have t: "\<not> sublist p (replaceAll pat rep cs)" by simp
    have "\<not> prefix p (c # replaceAll pat rep cs)"
    proof
      assume "prefix p (c # replaceAll pat rep cs)"
      with False "2.prems" have "prefix p (replaceAll pat rep (c # cs))" by simp
      with "2.prems" have "prefix p (c # cs)" by (auto intro: prefix_replaceAll [of pat rep p])
      with nopre show False by simp
    qed
    with t False "2.prems" show ?thesis by (simp add: sublist_Cons_right)
  qed
qed

lemma sublist_replaceAll_self:
  "k \<noteq> [] \<Longrightarrow> r \<noteq> [] \<Longrightarrow> hd k \<notin> set r \<Longrightarrow> hd r \<notin> set k \<Longrightarrow>
   \<not> sublist k (replaceAll k r t)"
proof (induction k r t rule: replaceAll.induct)
  case (1 pat rep)
  then show ?case by simp
next
  case (2 pat rep c cs)
  show ?case
  proof (cases "prefix pat (c # cs)")
    case True
    with "2.IH"(2) "2.prems" have "\<not> sublist pat (replaceAll pat rep (drop (length pat) (c # cs)))"
      by simp
    with "2.prems" True show ?thesis
      by (simp add: sublist_append_fresh)
  next
    case False
    with "2.IH"(3) "2.prems" have t: "\<not> sublist pat (replaceAll pat rep cs)" by simp
    have "\<not> prefix pat (c # replaceAll pat rep cs)"
    proof
      assume "prefix pat (c # replaceAll pat rep cs)"
      with False "2.prems" have "prefix pat (replaceAll pat rep (c # cs))" by simp
      with "2.prems" have "prefix pat (c # cs)" by (auto intro: prefix_replaceAll [of pat rep pat])
      with False show False by simp
    qed
    with t False "2.prems" show ?thesis by (simp add: sublist_Cons_right)
  qed
qed

lemma goodTable_hebrewToEnglish: "goodTable hebrewToEnglish"
  by (simp add: goodTable_def hebrewToEnglish_def goodKey_def goodRep_def asc_def)

lemma good_fresh:
  assumes "goodKey p" "goodRep r"
  shows "p \<noteq> []" "r \<noteq> []" "hd p \<notin> set r" "hd r \<notin> set p"
proof -
  from assms show "p \<noteq> []" "r \<noteq> []" by (simp_all add: goodKey_def goodRep_def)
  from assms show "hd p \<notin> set r" by (auto simp: goodKey_def goodRep_def list_all_iff)
  from assms show "hd r \<notin> set p" by (auto simp: goodKey_def goodRep_def list_all_iff)
qed

lemma substituteAll_keeps_absent:
  "goodTable tbl \<Longrightarrow> goodKey p \<Longrightarrow> \<not> sublist p s \<Longrightarrow> \<not> sublist p (substituteAll tbl s)"
proof (induction tbl arbitrary: s)
  case Nil
  then show ?case by simp
next
  case (Cons kr tbl)
  obtain k r where kr: "kr = (k, r)" by (cases kr)
  with Cons.prems have g: "goodKey k" "goodRep r" "goodTable tbl"
    by (simp_all add: goodTable_def)
  have "\<not> sublist p (replaceAll k r s)"
    using good_fresh [OF g(1,2)] good_fresh [OF Cons.prems(2) g(2)] Cons.prems(3)
    by (intro sublist_replaceAll_other)
  with Cons.IH [OF g(3) Cons.prems(2)] kr show ?case by simp
qed

lemma substituteAll_removes_keys:
  "goodTable tbl \<Longrightarrow> (k, r) \<in> set tbl \<Longrightarrow> \<not> sublist k (substituteAll tbl s)"
proof (induction tbl arbitrary: s)
  case Nil
  then show ?case by simp
next
  case (Cons kr tbl)
  obtain k' r' where kr: "kr = (k', r')" by (cases kr)
  with Cons.prems have g: "goodKey k'" "goodRep r'" "goodTable tbl"
    by (simp_all add: goodTable_def)
  show ?case
  proof (cases "(k, r) = (k', r')")
    case True
    have "\<not> sublist k' (replaceAll k' r' s)"
      using good_fresh [OF g(1,2)] by (intro sublist_replaceAll_self)
    then have "\<not> sublist k' (substituteAll tbl (replaceAll k' r' s))"
      using g by (intro substituteAll_keeps_absent)
    with True kr show ?thesis by simp
  next
    case False
    with Cons.prems kr have "(k, r) \<in> set tbl" by auto
    with Cons.IH [OF g(3)] kr show ?thesis by simp
  qed
qed

lemma substituteAll_fixed:
  "goodTable tbl \<Longrightarrow> \<forall>k r. (k, r) \<in> set tbl \<longrightarrow> \<not> sublist k s \<Longrightarrow> substituteAll tbl s = s"
proof (induction tbl)
  case Nil
  then show ?case by simp
next
  case (Cons kr tbl)
  obtain k r where kr: "kr = (k, r)" by (cases kr)
  with Cons.prems(1) have g: "goodKey k" "goodTable tbl"
    by (simp_all add: goodTable_def)
  from kr Cons.prems(2) have "\<not> sublist k s" by simp
  with g(1) have "replaceAll k r s = s"
    by (intro replaceAll_absent) (simp_all add: goodKey_def)
  moreover from Cons.prems(2) have "\<forall>k r. (k, r) \<in> set tbl \<longrightarrow> \<not> sublist k s" by simp
  with g(2) have "substituteAll tbl s = s" by (rule Cons.IH)
  ultimately show ?case using kr by simp
qed

subsection \<open>Claim about the substitution\<close>

text \<open>
  C10: the substitution is idempotent. After one pass no key of the table occurs in the
  text: an occurrence would have to start at a Hebrew letter, which no replacement
  contains, and could not run across a replacement, which starts with an upper-case
  Latin letter, which no key contains. A second pass therefore finds nothing to replace.
\<close>

theorem translateToEnglish_idempotent:
  "translateToEnglish (translateToEnglish t) = translateToEnglish t"
proof (cases "t = []")
  case True
  then show ?thesis by (simp add: translateToEnglish_def)
next
  case False
  let ?u = "substituteAll hebrewToEnglish t"
  have "substituteAll hebrewToEnglish ?u = ?u"
    using goodTable_hebrewToEnglish
    using substituteAll_removes_keys [OF goodTable_hebrewToEnglish, of _ _ t]
    by (intro substituteAll_fixed) blast+
  with False show ?thesis by (simp add: translateToEnglish_def)
qed

theorem translateToEnglish_idempotent_witness:
  "translateToEnglish (translateToEnglish [52, 32, 1489, 1508, 1489, 1512, 1523, 32, 50, 48, 50, 54]) =
     asc ''4 Feb 2026''"
proof -
  have "translateToEnglish [52, 32, 1489, 1508, 1489, 1512, 1523, 32, 50, 48, 50, 54] =
      asc ''4 Feb 2026''"
    by (simp add: translateToEnglish_def hebrewToEnglish_def asc_def)
  then show ?thesis
    using translateToEnglish_idempotent [of "[52, 32, 1489, 1508, 1489, 1512, 1523, 32, 50, 48, 50, 54]"]
    by simp
qed

section \<open>Matching around a count\<close>

lemmas pat_defs = patternKAds_def patternAboutK_def patternPlainAds_def adsUnit_def
  decimalNumber_def commaNumber_def OneOrMore_def modaot_def beerech_def

lemmas num_defs = parseFloat_def integerDigits_def fractionDigits_def matchedCount_def
  mathRound_def times1000_def natOfDigits_def toDouble_def roundHalfEven_def bitLength.simps
  Let_def

lemmas chr_defs = asc_def isDigit_def isWhiteSpace_def canon_def orElse_def

lemmas ev_defs = extractAdCount_def hasNoAdsMessage_def includes_js_def sublist_code(3)
  stripMarks_def adCountPatterns_def recordMatch_def matchAt_def matches.simps pat_defs
  chr_defs num_defs einModaot_def trim_def trimStart_def trimEnd_def

lemma matchAt_patternKAds_nondigit: "\<not> isDigit c \<Longrightarrow> matchAt patternKAds (c # s) = None"
  by (simp add: matchAt_def pat_defs matches.simps)

lemma match_skip: "noMatchStartingIn r pre rest \<Longrightarrow> match (pre @ rest) r = match rest r"
  by (induction pre) simp_all

lemma noMatchStartingIn_append:
  "noMatchStartingIn r (a @ b) rest \<longleftrightarrow>
     noMatchStartingIn r a (b @ rest) \<and> noMatchStartingIn r b rest"
  by (induction a) auto

lemma noMatchStartingIn_About:
  "noMatchStartingIn patternKAds (asc ''About '') rest"
  by (simp add: asc_def matchAt_patternKAds_nondigit isDigit_def)

lemma matchAt_2K_ads:
  "matchAt patternKAds (asc ''2K ads'' @ post) = Some (asc ''2K ads'', Some (asc ''2''))"
  by (simp add: matchAt_def pat_defs chr_defs matches.simps)


lemma match_2K_ads:
  "match (asc ''2K ads'' @ post) patternKAds = Some (asc ''2K ads'', Some (asc ''2''))"
proof -
  have "asc ''2K ads'' @ post = 50 # asc ''K ads'' @ post" by (simp add: asc_def)
  then show ?thesis using matchAt_2K_ads [of post] by simp
qed


lemma recordMatch_2K:
  "recordMatch patternKAds (asc ''2K ads'', Some (asc ''2'')) \<lparr>totalAds = Num 0, totalAdsText = []\<rparr> =
     \<lparr>totalAds = Num 2000, totalAdsText = asc ''2K ads''\<rparr>"
  by (simp add: recordMatch_def pat_defs chr_defs num_defs trim_def trimStart_def trimEnd_def)


lemma extract_2K_ads:
  assumes "\<not> hasNoAdsMessage raw"
    and "stripMarks raw = pre @ asc ''2K ads'' @ post"
    and "noMatchStartingIn patternKAds pre (asc ''2K ads'' @ post)"
  shows "extractAdCount raw = \<lparr>totalAds = Num 2000, totalAdsText = asc ''2K ads''\<rparr>"
proof -
  have "match (pre @ asc ''2K ads'' @ post) patternKAds = Some (asc ''2K ads'', Some (asc ''2''))"
    using match_skip [OF assms(3)] match_2K_ads [of post] by simp
  with assms(1) show ?thesis
    by (simp add: extractAdCount_def assms(2) adCountPatterns_def recordMatch_2K)
qed


subsection \<open>Claims about the ad-count extraction\<close>




text \<open>
  C4, as the spec states it, fails in both parts: on the text \<open>About 2K ads\<close> the first
  pattern matches \<open>2K ads\<close>, and that match, without \<open>About\<close>, is the recorded excerpt;
  and a text that contains the phrase after an earlier match of the first pattern, or
  together with a "no ads" message, does not give the count 2000.
\<close>

theorem about_2K_ads_excerpt_not_verbatim:
  "includes_js (asc ''About 2K ads'') (asc ''About 2K ads'') \<and>
   totalAdsText (extractAdCount (asc ''About 2K ads'')) = asc ''2K ads'' \<and>
   includes_js (asc ''3K ads. About 2K ads'') (asc ''About 2K ads'') \<and>
   totalAds (extractAdCount (asc ''3K ads. About 2K ads'')) = Num 3000 \<and>
   includes_js (asc ''No results. About 2K ads'') (asc ''About 2K ads'') \<and>
   totalAds (extractAdCount (asc ''No results. About 2K ads'')) = Num 0"
  by (simp add: ev_defs)

text \<open>
  C4, amended: for every page text without a "no ads" message whose cleaned form
  contains \<open>About 2K ads\<close> with no match of the first pattern starting before the
  phrase, the count is 2000 and the recorded excerpt is \<open>2K ads\<close>, the match of the
  first pattern.
\<close>

theorem about_2K_ads_count_and_excerpt:
  "(\<forall>raw pre post. \<not> hasNoAdsMessage raw \<longrightarrow>
      stripMarks raw = pre @ asc ''About 2K ads'' @ post \<longrightarrow>
      noMatchStartingIn patternKAds pre (asc ''About 2K ads'' @ post) \<longrightarrow>
      extractAdCount raw = \<lparr>totalAds = Num 2000, totalAdsText = asc ''2K ads''\<rparr>) \<and>
   extractAdCount (asc ''About 2K ads'') = \<lparr>totalAds = Num 2000, totalAdsText = asc ''2K ads''\<rparr>"
proof (intro conjI allI impI)
  fix raw pre post
  assume a: "\<not> hasNoAdsMessage raw"
    and b: "stripMarks raw = pre @ asc ''About 2K ads'' @ post"
    and c: "noMatchStartingIn patternKAds pre (asc ''About 2K ads'' @ post)"
  have e: "asc ''About 2K ads'' @ post = asc ''About '' @ asc ''2K ads'' @ post"
    by (simp add: asc_def)
  from b have b': "stripMarks raw = (pre @ asc ''About '') @ asc ''2K ads'' @ post"
    by (simp add: e)
  from c have "noMatchStartingIn patternKAds (pre @ asc ''About '') (asc ''2K ads'' @ post)"
    by (simp add: noMatchStartingIn_append noMatchStartingIn_About e)
  with a b' show "extractAdCount raw = \<lparr>totalAds = Num 2000, totalAdsText = asc ''2K ads''\<rparr>"
    by (rule extract_2K_ads)
next
  show "extractAdCount (asc ''About 2K ads'') =
      \<lparr>totalAds = Num 2000, totalAdsText = asc ''2K ads''\<rparr>"
    by (simp add: ev_defs)
qed

theorem about_2K_ads_count_and_excerpt_witness:
  "\<not> hasNoAdsMessage (asc ''Showing 1-40 of About 2K ads'') \<and>
   stripMarks (asc ''Showing 1-40 of About 2K ads'') =
     asc ''Showing 1-40 of '' @ asc ''About 2K ads'' @ [] \<and>
   noMatchStartingIn patternKAds (asc ''Showing 1-40 of '') (asc ''About 2K ads'' @ []) \<and>
   extractAdCount (asc ''Showing 1-40 of About 2K ads'') =
     \<lparr>totalAds = Num 2000, totalAdsText = asc ''2K ads''\<rparr>"
proof -
  have h1: "\<not> hasNoAdsMessage (asc ''Showing 1-40 of About 2K ads'')"
    by (simp add: hasNoAdsMessage_def includes_js_def sublist_code(3) einModaot_def asc_def)
  have h2: "stripMarks (asc ''Showing 1-40 of About 2K ads'') =
     asc ''Showing 1-40 of '' @ asc ''About 2K ads'' @ []"
    by (simp add: stripMarks_def asc_def)
  have h3: "noMatchStartingIn patternKAds (asc ''Showing 1-40 of '') (asc ''About 2K ads'' @ [])"
    by (simp add: matchAt_def matches.simps pat_defs chr_defs)
  from h1 h2 h3 show ?thesis
    using about_2K_ads_count_and_excerpt by blast
qed

section \<open>Format detection\<close>

lemma querySelector_found: "(querySelector P el \<noteq> None) = (\<exists>e\<in>set el. P e)"
  by (auto simp: querySelector_def find_None_iff)

text \<open>
  C7, as the spec states it, fails for an image element that the selector of the code
  does not match: a creative whose only descendant is an \<open>img\<close> served from another
  host is classified as Text.
\<close>

theorem adFormat_other_image_is_text:
  "adFormat [\<lparr>tagName = asc ''img'', srcAttr = Some (asc ''https://example.com/banner.png'')\<rparr>] =
     asc ''Text''"
  by (simp add: adFormat_def querySelector_def videoSelector_def adImageSelector_def
      includes_js_def sublist_code(3) asc_def)

text \<open>
  C7, amended: a creative is Video when it has a \<open>video\<close> descendant; otherwise Image
  when it has an \<open>img\<close> descendant whose \<open>src\<close> contains \<open>googlesyndication\<close> or
  \<open>googleusercontent\<close>; otherwise Text. A creative with both a video and such an image
  is Video.
\<close>

theorem adFormat_precedence:
  "adFormat el =
     (if \<exists>e\<in>set el. videoSelector e then asc ''Video''
      else if \<exists>e\<in>set el. adImageSelector e then asc ''Image''
      else asc ''Text'') \<and>
   adFormat [\<lparr>tagName = asc ''img'',
               srcAttr = Some (asc ''https://tpc.googlesyndication.com/simgad/1'')\<rparr>,
             \<lparr>tagName = asc ''video'', srcAttr = None\<rparr>] = asc ''Video''"
proof
  show "adFormat el =
     (if \<exists>e\<in>set el. videoSelector e then asc ''Video''
      else if \<exists>e\<in>set el. adImageSelector e then asc ''Image''
      else asc ''Text'')"
    by (simp only: adFormat_def Let_def querySelector_found)
  show "adFormat [\<lparr>tagName = asc ''img'',
               srcAttr = Some (asc ''https://tpc.googlesyndication.com/simgad/1'')\<rparr>,
             \<lparr>tagName = asc ''video'', srcAttr = None\<rparr>] = asc ''Video''"
    by (simp add: adFormat_def querySelector_def videoSelector_def adImageSelector_def
        includes_js_def sublist_code(3) asc_def)
qed

theorem adFormat_precedence_witness:
  "adImageSelector \<lparr>tagName = asc ''img'',
       srcAttr = Some (asc ''https://lh3.googleusercontent.com/x'')\<rparr> \<and>
   \<not> videoSelector \<lparr>tagName = asc ''img'',
       srcAttr = Some (asc ''https://lh3.googleusercontent.com/x'')\<rparr> \<and>
   adFormat [\<lparr>tagName = asc ''img'',
       srcAttr = Some (asc ''https://lh3.googleusercontent.com/x'')\<rparr>] = asc ''Image''"
proof -
  have i: "adImageSelector \<lparr>tagName = asc ''img'',
       srcAttr = Some (asc ''https://lh3.googleusercontent.com/x'')\<rparr>"
    by (simp add: adImageSelector_def includes_js_def sublist_code(3) asc_def)
  have v: "\<not> videoSelector \<lparr>tagName = asc ''img'',
       srcAttr = Some (asc ''https://lh3.googleusercontent.com/x'')\<rparr>"
    by (simp add: videoSelector_def asc_def)
  from i v show ?thesis
    using adFormat_precedence [of "[\<lparr>tagName = asc ''img'',
       srcAttr = Some (asc ''https://lh3.googleusercontent.com/x'')\<rparr>]"]
    by simp
qed

section \<open>Merging supplementary details\<close>

lemma mergeAdvertiserDetails_fields:
  "legalName (mergeAdvertiserDetails d adv) =
     (if truthy (detLegalName d) then detLegalName d else legalName adv)"
  "location (mergeAdvertiserDetails d adv) =
     (if truthy (detLocation d) then map_option translateToEnglish (detLocation d) else location adv)"
  "verified (mergeAdvertiserDetails d adv) = (detVerified d \<or> verified adv)"
  "advId (mergeAdvertiserDetails d adv) = advId adv"
  by (simp_all add: mergeAdvertiserDetails_def Let_def)

lemma mergeAdDetails_fields:
  "lastSeenDate (mergeAdDetails d data) =
     (if truthy (detLastSeenDate d) then map_option translateToEnglish (detLastSeenDate d)
      else lastSeenDate data)"
  "shownInRegions (mergeAdDetails d data) =
     (if truthy (detShownIn d) then map_option translateToEnglish (detShownIn d)
      else shownInRegions data)"
  "advertiserOf (mergeAdDetails d data) = advertiserOf data"
  by (simp_all add: mergeAdDetails_def Let_def split: option.splits)

lemma fetchDetails_Completed:
  assumes "fetchDetails advertiserPage creativePage shot data = Completed data'"
  obtains d1 d2 base64 where
    "d1 = data \<or> (\<exists>det. advertiserPage = Returned det \<and>
        d1 = data\<lparr>advertiserOf := map_option (mergeAdvertiserDetails det) (advertiserOf data)\<rparr>)"
    "d2 = d1 \<or> (\<exists>det. creativePage = Returned det \<and> d2 = mergeAdDetails det d1)"
    "data' = d2\<lparr>screenshot := Some base64\<rparr>"
  using assms unfolding fetchDetails_def
  by (auto split: if_splits visit.splits scanResult.splits)

lemma mergeAdvertiserDetails_frame:
  "legalName (mergeAdvertiserDetails d adv) = legalName adv \<or>
     (\<exists>v. detLegalName d = Some v \<and> v \<noteq> [] \<and> legalName (mergeAdvertiserDetails d adv) = Some v)"
  "location (mergeAdvertiserDetails d adv) = location adv \<or>
     (\<exists>v. detLocation d = Some v \<and> v \<noteq> [] \<and>
        location (mergeAdvertiserDetails d adv) = Some (translateToEnglish v))"
  "verified (mergeAdvertiserDetails d adv) = verified adv \<or>
     (detVerified d \<and> verified (mergeAdvertiserDetails d adv))"
proof -
  show "legalName (mergeAdvertiserDetails d adv) = legalName adv \<or>
     (\<exists>v. detLegalName d = Some v \<and> v \<noteq> [] \<and> legalName (mergeAdvertiserDetails d adv) = Some v)"
    by (cases "detLegalName d") (simp_all add: mergeAdvertiserDetails_fields truthy_def)
  show "location (mergeAdvertiserDetails d adv) = location adv \<or>
     (\<exists>v. detLocation d = Some v \<and> v \<noteq> [] \<and>
        location (mergeAdvertiserDetails d adv) = Some (translateToEnglish v))"
    by (cases "detLocation d") (simp_all add: mergeAdvertiserDetails_fields truthy_def)
  show "verified (mergeAdvertiserDetails d adv) = verified adv \<or>
     (detVerified d \<and> verified (mergeAdvertiserDetails d adv))"
    by (auto simp: mergeAdvertiserDetails_fields)
qed

lemma mergeAdDetails_frame:
  "lastSeenDate (mergeAdDetails d data) = lastSeenDate data \<or>
     (\<exists>v. detLastSeenDate d = Some v \<and> v \<noteq> [] \<and>
        lastSeenDate (mergeAdDetails d data) = Some (translateToEnglish v))"
  "shownInRegions (mergeAdDetails d data) = shownInRegions data \<or>
     (\<exists>v. detShownIn d = Some v \<and> v \<noteq> [] \<and>
        shownInRegions (mergeAdDetails d data) = Some (translateToEnglish v))"
proof -
  show "lastSeenDate (mergeAdDetails d data) = lastSeenDate data \<or>
     (\<exists>v. detLastSeenDate d = Some v \<and> v \<noteq> [] \<and>
        lastSeenDate (mergeAdDetails d data) = Some (translateToEnglish v))"
    by (cases "detLastSeenDate d") (simp_all add: mergeAdDetails_fields truthy_def)
  show "shownInRegions (mergeAdDetails d data) = shownInRegions data \<or>
     (\<exists>v. detShownIn d = Some v \<and> v \<noteq> [] \<and>
        shownInRegions (mergeAdDetails d data) = Some (translateToEnglish v))"
    by (cases "detShownIn d") (simp_all add: mergeAdDetails_fields truthy_def)
qed

text \<open>
  C1: in every completed scan, a detail page that returns \<open>null\<close> for the legal name,
  the location, the last-seen date or the shown-in regions, or \<open>false\<close> for the
  verified flag, leaves the value the scan data already had; and a field that changed
  was written from a non-null (and non-empty) supplementary value.
\<close>

theorem null_supplement_keeps_known_value:
  assumes "fetchDetails advertiserPage creativePage shot data = Completed data'"
  shows "(\<forall>d. advertiserPage = Returned d \<longrightarrow> detLegalName d = None \<longrightarrow>
            legalNameOf data' = legalNameOf data) \<and>
         (\<forall>d. advertiserPage = Returned d \<longrightarrow> detLocation d = None \<longrightarrow>
            locationOf data' = locationOf data) \<and>
         (\<forall>d. advertiserPage = Returned d \<longrightarrow> \<not> detVerified d \<longrightarrow>
            verifiedOf data' = verifiedOf data) \<and>
         (\<forall>d. creativePage = Returned d \<longrightarrow> detLastSeenDate d = None \<longrightarrow>
            lastSeenDate data' = lastSeenDate data) \<and>
         (\<forall>d. creativePage = Returned d \<longrightarrow> detShownIn d = None \<longrightarrow>
            shownInRegions data' = shownInRegions data) \<and>
         (legalNameOf data' = legalNameOf data \<or>
            (\<exists>d v. advertiserPage = Returned d \<and> detLegalName d = Some v \<and> v \<noteq> [] \<and>
               legalNameOf data' = Some v)) \<and>
         (locationOf data' = locationOf data \<or>
            (\<exists>d v. advertiserPage = Returned d \<and> detLocation d = Some v \<and> v \<noteq> [] \<and>
               locationOf data' = Some (translateToEnglish v))) \<and>
         (verifiedOf data' = verifiedOf data \<or>
            (\<exists>d. advertiserPage = Returned d \<and> detVerified d \<and> verifiedOf data')) \<and>
         (lastSeenDate data' = lastSeenDate data \<or>
            (\<exists>d v. creativePage = Returned d \<and> detLastSeenDate d = Some v \<and> v \<noteq> [] \<and>
               lastSeenDate data' = Some (translateToEnglish v))) \<and>
         (shownInRegions data' = shownInRegions data \<or>
            (\<exists>d v. creativePage = Returned d \<and> detShownIn d = Some v \<and> v \<noteq> [] \<and>
               shownInRegions data' = Some (translateToEnglish v)))"
proof -
  from assms obtain d1 d2 base64 where
    s1: "d1 = data \<or> (\<exists>det. advertiserPage = Returned det \<and>
        d1 = data\<lparr>advertiserOf := map_option (mergeAdvertiserDetails det) (advertiserOf data)\<rparr>)"
    and s2: "d2 = d1 \<or> (\<exists>det. creativePage = Returned det \<and> d2 = mergeAdDetails det d1)"
    and s3: "data' = d2\<lparr>screenshot := Some base64\<rparr>"
    by (rule fetchDetails_Completed)
  have adv: "advertiserOf data' = advertiserOf d1"
    using s2 s3 by (auto simp: mergeAdDetails_fields)
  have cre: "lastSeenDate d1 = lastSeenDate data" "shownInRegions d1 = shownInRegions data"
    using s1 by auto
  have ln: "legalNameOf data' = legalNameOf data \<or>
            (\<exists>d v. advertiserPage = Returned d \<and> detLegalName d = Some v \<and> v \<noteq> [] \<and>
               legalNameOf data' = Some v)"
  proof (cases "advertiserOf data")
    case None
    with s1 show ?thesis by (auto simp: legalNameOf_def adv)
  next
    case (Some a)
    with s1 mergeAdvertiserDetails_frame(1) [of _ a] show ?thesis
      by (fastforce simp: legalNameOf_def adv)
  qed
  have lo: "locationOf data' = locationOf data \<or>
            (\<exists>d v. advertiserPage = Returned d \<and> detLocation d = Some v \<and> v \<noteq> [] \<and>
               locationOf data' = Some (translateToEnglish v))"
  proof (cases "advertiserOf data")
    case None
    with s1 show ?thesis by (auto simp: locationOf_def adv)
  next
    case (Some a)
    with s1 mergeAdvertiserDetails_frame(2) [of _ a] show ?thesis
      by (fastforce simp: locationOf_def adv)
  qed
  have ve: "verifiedOf data' = verifiedOf data \<or>
            (\<exists>d. advertiserPage = Returned d \<and> detVerified d \<and> verifiedOf data')"
  proof (cases "advertiserOf data")
    case None
    with s1 show ?thesis by (auto simp: verifiedOf_def adv)
  next
    case (Some a)
    with s1 mergeAdvertiserDetails_frame(3) [of _ a] show ?thesis
      by (fastforce simp: verifiedOf_def adv)
  qed
  have ls: "lastSeenDate data' = lastSeenDate data \<or>
            (\<exists>d v. creativePage = Returned d \<and> detLastSeenDate d = Some v \<and> v \<noteq> [] \<and>
               lastSeenDate data' = Some (translateToEnglish v))"
    using s2 s3 mergeAdDetails_frame(1) [of _ d1] by (fastforce simp: cre)
  have sh: "shownInRegions data' = shownInRegions data \<or>
            (\<exists>d v. creativePage = Returned d \<and> detShownIn d = Some v \<and> v \<noteq> [] \<and>
               shownInRegions data' = Some (translateToEnglish v))"
    using s2 s3 mergeAdDetails_frame(2) [of _ d1] by (fastforce simp: cre)
  from ln lo ve ls sh show ?thesis by auto
qed

theorem null_supplement_keeps_known_value_witness:
  "fetchDetails
     (Returned \<lparr>detLegalName = None, detLocation = None, detVerified = False\<rparr>)
     (Returned \<lparr>detLastSeenDate = None, detFormat = None, detShownIn = None\<rparr>)
     (Returned (asc ''png''))
     \<lparr>advertiserOf = Some \<lparr>advId = Some (asc ''AR1''), advName = Some (asc ''ToGo''),
          legalName = Some (asc ''ToGo Networks LTD''), verified = True,
          location = Some (asc ''Israel'')\<rparr>,
       dataTotalAds = Num 80,
       ads = [\<lparr>creativeId = Some (asc ''CR1''), format = asc ''Image'', adText = asc ''ad''\<rparr>],
       publishers = [],
       adFormats = [asc ''Image''], lastSeenDate = Some (asc ''4 Feb 2026''),
       shownInRegions = Some (asc ''Everywhere''), screenshot = None\<rparr> =
   Completed
     \<lparr>advertiserOf = Some \<lparr>advId = Some (asc ''AR1''), advName = Some (asc ''ToGo''),
          legalName = Some (asc ''ToGo Networks LTD''), verified = True,
          location = Some (asc ''Israel'')\<rparr>,
       dataTotalAds = Num 80,
       ads = [\<lparr>creativeId = Some (asc ''CR1''), format = asc ''Image'', adText = asc ''ad''\<rparr>],
       publishers = [],
       adFormats = [asc ''Image''], lastSeenDate = Some (asc ''4 Feb 2026''),
       shownInRegions = Some (asc ''Everywhere''), screenshot = Some (asc ''png'')\<rparr> \<and>
   legalNameOf
     \<lparr>advertiserOf = Some \<lparr>advId = Some (asc ''AR1''), advName = Some (asc ''ToGo''),
          legalName = Some (asc ''ToGo Networks LTD''), verified = True,
          location = Some (asc ''Israel'')\<rparr>,
       dataTotalAds = Num 80,
       ads = [\<lparr>creativeId = Some (asc ''CR1''), format = asc ''Image'', adText = asc ''ad''\<rparr>],
       publishers = [],
       adFormats = [asc ''Image''], lastSeenDate = Some (asc ''4 Feb 2026''),
       shownInRegions = Some (asc ''Everywhere''), screenshot = Some (asc ''png'')\<rparr> =
   legalNameOf
     \<lparr>advertiserOf = Some \<lparr>advId = Some (asc ''AR1''), advName = Some (asc ''ToGo''),
          legalName = Some (asc ''ToGo Networks LTD''), verified = True,
          location = Some (asc ''Israel'')\<rparr>,
       dataTotalAds = Num 80,
       ads = [\<lparr>creativeId = Some (asc ''CR1''), format = asc ''Image'', adText = asc ''ad''\<rparr>],
       publishers = [],
       adFormats = [asc ''Image''], lastSeenDate = Some (asc ''4 Feb 2026''),
       shownInRegions = Some (asc ''Everywhere''), screenshot = None\<rparr>"
  (is "fetchDetails ?p1 ?p2 ?shot ?data = Completed ?data' \<and> _")
proof -
  have c: "fetchDetails ?p1 ?p2 ?shot ?data = Completed ?data'"
    by (simp add: fetchDetails_def hasAdvertiserId_def hasFirstCreative_def truthy_def
        mergeAdvertiserDetails_def mergeAdDetails_def asc_def)
  have n: "detLegalName \<lparr>detLegalName = None, detLocation = None, detVerified = False\<rparr> = None"
    by simp
  from null_supplement_keeps_known_value [OF c] n
  have "legalNameOf ?data' = legalNameOf ?data" by blast
  with c show ?thesis by (rule conjI)
qed

section \<open>The batches of a run\<close>























subsection \<open>Claims about the batch run\<close>









section \<open>The scheduler never runs two scans at once\<close>

lemmas sched_defs = postStart_def startAutoRun_def stopAutoRun_def clearScheduledTask_def
  runEntry_def runExit_def updateNextRunTime_def scheduleNextRun_def timerFires_def postStop_def

lemma runningServer_eq:
  "runningServer =
     \<lparr>auto = \<lparr>enabled = True, intervalMinutes = 60, isRunning = True,
              lastRunTime = Some (asc ''t0''),
              nextRunTime = None, lastResults = None, scheduledTask = None,
              appsScriptUrl = Some (asc ''https://script.example/exec''),
              domains = [asc ''a.com'', asc ''b.com''], batchSize = 5\<rparr>,
      timers = {}, nextTimer = 0, runs = 1\<rparr>"
  by (simp add: runningServer_def exampleRequest_def initialServer_def sched_defs Let_def)

lemma runEntry_invariant: "runInvariant s \<Longrightarrow> runInvariant (runEntry clock s)"
  by (auto simp: runInvariant_def runEntry_def)

lemma clearScheduledTask_runs [simp]:
  "runs (clearScheduledTask s) = runs s" "isRunning (auto (clearScheduledTask s)) = isRunning (auto s)"
  "enabled (auto (clearScheduledTask s)) = enabled (auto s)"
  by (simp_all add: clearScheduledTask_def split: option.splits)

lemma stopAutoRun_runs [simp]:
  "runs (stopAutoRun s) = runs s" "isRunning (auto (stopAutoRun s)) = isRunning (auto s)"
  by (simp_all add: stopAutoRun_def Let_def)

lemma scheduleNextRun_runs [simp]:
  "runs (scheduleNextRun s) = runs s" "isRunning (auto (scheduleNextRun s)) = isRunning (auto s)"
  by (simp_all add: scheduleNextRun_def Let_def)

lemma updateNextRunTime_runs [simp]:
  "runs (updateNextRunTime n s) = runs s" "isRunning (auto (updateNextRunTime n s)) = isRunning (auto s)"
  by (simp_all add: updateNextRunTime_def)

lemma stopAutoRun_invariant: "runInvariant s \<Longrightarrow> runInvariant (stopAutoRun s)"
  by (simp add: runInvariant_def)

lemma startAutoRun_invariant: "runInvariant s \<Longrightarrow> runInvariant (fst (startAutoRun clock s))"
proof -
  assume "runInvariant s"
  then have "runInvariant (stopAutoRun s)" by (rule stopAutoRun_invariant)
  then have "runInvariant ((stopAutoRun s)\<lparr>auto := (auto (stopAutoRun s))\<lparr>enabled := True\<rparr>\<rparr>)"
    by (simp add: runInvariant_def)
  then have "runInvariant (runEntry clock ((stopAutoRun s)\<lparr>auto := (auto (stopAutoRun s))\<lparr>enabled := True\<rparr>\<rparr>))"
    by (rule runEntry_invariant)
  with \<open>runInvariant (stopAutoRun s)\<close> show ?thesis
    by (simp add: startAutoRun_def Let_def)
qed

lemma postStart_invariant: "runInvariant s \<Longrightarrow> runInvariant (fst (postStart req clock s))"
proof -
  assume i: "runInvariant s"
  have "runInvariant (fst (startAutoRun clock (s\<lparr>auto := (auto s)\<lparr>intervalMinutes := m,
      appsScriptUrl := u, domains := ds, batchSize := b\<rparr>\<rparr>)))" for m u ds b
    using i by (intro startAutoRun_invariant) (simp add: runInvariant_def)
  with i show ?thesis
    by (simp add: postStart_def Let_def split_beta split: option.splits)
qed

lemma runExit_invariant: "runInvariant s \<Longrightarrow> runInvariant (runExit results next s)"
  by (auto simp: runInvariant_def runExit_def Let_def)

lemma reachable_invariant: "reachable s \<Longrightarrow> runInvariant s"
proof (induction rule: reachable.induct)
  case initial
  show ?case by (simp add: runInvariant_def initialServer_def)
next
  case (start s req clock)
  then show ?case by (simp add: postStart_invariant)
next
  case (stop s)
  then show ?case by (simp add: postStop_def stopAutoRun_invariant)
next
  case (timer s h clock)
  then have "runInvariant (s\<lparr>timers := timers s - {h}\<rparr>)" by (simp add: runInvariant_def)
  then show ?case unfolding timerFires_def by (rule runEntry_invariant)
next
  case (finish s results nxt)
  then show ?case by (simp add: runExit_invariant)
next
  case (abort s)
  then show ?case by (auto simp: runInvariant_def)
qed

lemma reachable_runningServer: "reachable runningServer"
  unfolding runningServer_def by (intro reachable.start reachable.initial)

lemma runEntry_running: "isRunning (auto s) \<Longrightarrow> runEntry clock s = s"
  by (simp add: runEntry_def)

lemma startAutoRun_running:
  assumes "isRunning (auto s)"
  shows "runs (fst (startAutoRun clock s)) = runs s"
    and "isRunning (auto (fst (startAutoRun clock s)))"
    and "lastRunTime (auto (fst (startAutoRun clock s))) = lastRunTime (auto s)"
    and "nextRunTime (auto (fst (startAutoRun clock s))) = None"
    and "1 \<le> intervalMinutes (auto s) \<Longrightarrow> snd (startAutoRun clock s) = [(''success'', JBool True)]"
    and "intervalMinutes (auto (fst (startAutoRun clock s))) = intervalMinutes (auto s)"
    and "domains (auto (fst (startAutoRun clock s))) = domains (auto s)"
  using assms
  by (simp_all add: startAutoRun_def stopAutoRun_def clearScheduledTask_def runEntry_def Let_def
      split: option.splits)

subsection \<open>Claim about starting while a run is in progress\<close>

text \<open>
  C8, as the spec states it, fails in its last part: the answer to a start request
  made while a run is in progress is not the status. It has no \<open>isRunning\<close> field,
  which the status has, and it is the same acknowledgement that a start request gives
  when it does start a run.
\<close>

theorem second_start_response_is_not_status:
  "isRunning (auto runningServer) \<and>
   map_of (snd (postStart exampleRequest (asc ''t1'') runningServer)) ''isRunning'' = None \<and>
   map_of (getStatus (fst (postStart exampleRequest (asc ''t1'') runningServer))) ''isRunning'' =
     Some (JBool True) \<and>
   snd (postStart exampleRequest (asc ''t1'') runningServer) \<noteq>
     getStatus (fst (postStart exampleRequest (asc ''t1'') runningServer))"
  by (simp add: runningServer_eq exampleRequest_def sched_defs getStatus_def jsonOfString_def
      Let_def)

text \<open>
  C8, amended: in every state the server can reach at most one run is in progress; the
  entry of \<open>runScheduledScan\<close> changes nothing when \<open>isRunning\<close> is set; a start
  request made while a run is in progress leaves the number of runs, the flag and the
  time of the run as they are; and when the request is valid it clears the pending
  timer, if there is one, and sets none; it stores the interval, the results URL, the
  domains and the batch size (5 when absent or 0) of the request; it enables the
  scheduler and resets the time of the next run; it changes nothing else; and its
  answer is \<open>{success: true, intervalMinutes, nextRunTime: null, domainsCount}\<close>.
\<close>

theorem start_while_running_keeps_single_run:
  assumes "reachable s"
  shows "runs s \<le> 1 \<and>
         (isRunning (auto s) \<longrightarrow> runEntry clock s = s) \<and>
         (isRunning (auto s) \<longrightarrow>
            runs (fst (postStart req clock s)) = runs s \<and>
            isRunning (auto (fst (postStart req clock s))) \<and>
            lastRunTime (auto (fst (postStart req clock s))) = lastRunTime (auto s)) \<and>
         (isRunning (auto s) \<longrightarrow> reqDomains req = Some ds \<longrightarrow> ds \<noteq> [] \<longrightarrow>
            reqIntervalMinutes req = Some m \<longrightarrow> 1 \<le> m \<longrightarrow>
            snd (postStart req clock s) =
              [(''success'', JBool True), (''intervalMinutes'', JNum m),
               (''nextRunTime'', JNull), (''domainsCount'', JNum (length ds))]) \<and>
         (isRunning (auto s) \<longrightarrow> reqDomains req = Some ds \<longrightarrow> ds \<noteq> [] \<longrightarrow>
            reqIntervalMinutes req = Some m \<longrightarrow> 1 \<le> m \<longrightarrow>
            enabled (auto (fst (postStart req clock s))) \<and>
            scheduledTask (auto (fst (postStart req clock s))) = None \<and>
            timers (fst (postStart req clock s)) =
              (case scheduledTask (auto s) of None \<Rightarrow> timers s | Some h \<Rightarrow> timers s - {h}) \<and>
            nextTimer (fst (postStart req clock s)) = nextTimer s \<and>
            intervalMinutes (auto (fst (postStart req clock s))) = m \<and>
            appsScriptUrl (auto (fst (postStart req clock s))) = reqAppsScriptUrl req \<and>
            domains (auto (fst (postStart req clock s))) = ds \<and>
            batchSize (auto (fst (postStart req clock s))) =
              (case reqBatchSize req of None \<Rightarrow> 5 | Some b \<Rightarrow> if b = 0 then 5 else b) \<and>
            nextRunTime (auto (fst (postStart req clock s))) = None \<and>
            lastResults (auto (fst (postStart req clock s))) = lastResults (auto s))"
proof (intro conjI impI)
  from assms have "runInvariant s" by (rule reachable_invariant)
  then show "runs s \<le> 1" by (simp add: runInvariant_def)
next
  assume "isRunning (auto s)"
  then show "runEntry clock s = s" by (rule runEntry_running)
next
  assume r: "isRunning (auto s)"
  have k: "runs (fst (startAutoRun clock (s\<lparr>auto := a\<rparr>))) = runs s \<and>
        isRunning (auto (fst (startAutoRun clock (s\<lparr>auto := a\<rparr>)))) \<and>
        lastRunTime (auto (fst (startAutoRun clock (s\<lparr>auto := a\<rparr>)))) = lastRunTime a"
    if "isRunning a" for a
    using startAutoRun_running(1,2,3) [of "s\<lparr>auto := a\<rparr>" clock] that by simp
  show "runs (fst (postStart req clock s)) = runs s"
    using r k by (simp add: postStart_def Let_def split_beta split: option.splits)
  show "isRunning (auto (fst (postStart req clock s)))"
    using r k by (simp add: postStart_def Let_def split_beta split: option.splits)
  show "lastRunTime (auto (fst (postStart req clock s))) = lastRunTime (auto s)"
    using r k by (simp add: postStart_def Let_def split_beta split: option.splits)
next
  assume r: "isRunning (auto s)" and d: "reqDomains req = Some ds" "ds \<noteq> []"
    and i: "reqIntervalMinutes req = Some m" "1 \<le> m"
  let ?s = "s\<lparr>auto := (auto s)\<lparr>intervalMinutes := m, appsScriptUrl := reqAppsScriptUrl req,
      domains := ds,
      batchSize := (case reqBatchSize req of None \<Rightarrow> 5 | Some b \<Rightarrow> if b = 0 then 5 else b)\<rparr>\<rparr>"
  have run: "isRunning (auto ?s)" using r by simp
  have m: "1 \<le> intervalMinutes (auto ?s)" using i(2) by simp
  from d i show "snd (postStart req clock s) =
              [(''success'', JBool True), (''intervalMinutes'', JNum m),
               (''nextRunTime'', JNull), (''domainsCount'', JNum (length ds))]"
    using startAutoRun_running(4,6,7) [OF run, of clock] startAutoRun_running(5) [OF run m, of clock]
    by (simp add: postStart_def Let_def split_beta jsonOfString_def)
next
  assume r: "isRunning (auto s)" and d: "reqDomains req = Some ds" "ds \<noteq> []"
    and i: "reqIntervalMinutes req = Some m" "1 \<le> m"
  have st: "fst (postStart req clock s) =
      s\<lparr>auto := (auto s)\<lparr>intervalMinutes := m, appsScriptUrl := reqAppsScriptUrl req,
          domains := ds,
          batchSize := (case reqBatchSize req of None \<Rightarrow> 5 | Some b \<Rightarrow> if b = 0 then 5 else b),
          scheduledTask := None, enabled := True, nextRunTime := None\<rparr>,
        timers := (case scheduledTask (auto s) of None \<Rightarrow> timers s | Some h \<Rightarrow> timers s - {h})\<rparr>"
    using r d i
    by (cases s; cases "auto s"; cases "scheduledTask (auto s)")
      (simp_all add: postStart_def startAutoRun_def stopAutoRun_def clearScheduledTask_def
        runEntry_def Let_def)
  show "enabled (auto (fst (postStart req clock s)))"
    and "scheduledTask (auto (fst (postStart req clock s))) = None"
    and "timers (fst (postStart req clock s)) =
              (case scheduledTask (auto s) of None \<Rightarrow> timers s | Some h \<Rightarrow> timers s - {h})"
    and "nextTimer (fst (postStart req clock s)) = nextTimer s"
    and "intervalMinutes (auto (fst (postStart req clock s))) = m"
    and "appsScriptUrl (auto (fst (postStart req clock s))) = reqAppsScriptUrl req"
    and "domains (auto (fst (postStart req clock s))) = ds"
    and "batchSize (auto (fst (postStart req clock s))) =
              (case reqBatchSize req of None \<Rightarrow> 5 | Some b \<Rightarrow> if b = 0 then 5 else b)"
    and "nextRunTime (auto (fst (postStart req clock s))) = None"
    and "lastResults (auto (fst (postStart req clock s))) = lastResults (auto s)"
    unfolding st by simp_all
qed

theorem start_while_running_keeps_single_run_witness:
  "reachable runningServer \<and> isRunning (auto runningServer) \<and>
   reqDomains exampleRequest = Some [asc ''a.com'', asc ''b.com''] \<and>
   [asc ''a.com'', asc ''b.com''] \<noteq> [] \<and>
   reqIntervalMinutes exampleRequest = Some 60 \<and> (1::nat) \<le> 60 \<and>
   runs runningServer \<le> 1 \<and>
   runEntry (asc ''t1'') runningServer = runningServer \<and>
   runs (fst (postStart exampleRequest (asc ''t1'') runningServer)) = runs runningServer \<and>
   isRunning (auto (fst (postStart exampleRequest (asc ''t1'') runningServer))) \<and>
   snd (postStart exampleRequest (asc ''t1'') runningServer) =
     [(''success'', JBool True), (''intervalMinutes'', JNum 60),
      (''nextRunTime'', JNull), (''domainsCount'', JNum 2)] \<and>
   enabled (auto (fst (postStart exampleRequest (asc ''t1'') runningServer))) \<and>
   scheduledTask (auto (fst (postStart exampleRequest (asc ''t1'') runningServer))) = None \<and>
   domains (auto (fst (postStart exampleRequest (asc ''t1'') runningServer))) =
     [asc ''a.com'', asc ''b.com''] \<and>
   batchSize (auto (fst (postStart exampleRequest (asc ''t1'') runningServer))) = 5"
proof -
  have h1: "reachable runningServer" by (rule reachable_runningServer)
  have h2: "isRunning (auto runningServer)" by (simp add: runningServer_eq)
  have h3: "reqDomains exampleRequest = Some [asc ''a.com'', asc ''b.com'']"
    and h5: "reqIntervalMinutes exampleRequest = Some 60"
    by (simp_all add: exampleRequest_def)
  have h4: "[asc ''a.com'', asc ''b.com''] \<noteq> []" and h6: "(1::nat) \<le> 60" by simp_all
  from start_while_running_keeps_single_run [OF h1, of "asc ''t1''" exampleRequest
      "[asc ''a.com'', asc ''b.com'']" 60] h1 h2 h3 h4 h5 h6
  show ?thesis by (simp add: exampleRequest_def)
qed

end
